theory Spec2Isabelle
  imports Main "HOL-Library.Sublist"
begin

section \<open>Python values used by the scraper\<close>

text \<open>
  Exceptions of the Python source are values: every function that can raise returns
  \<open>error + 'a\<close>, with \<open>Inl\<close> the exception. \<open>ValueErrorFrom msg cause\<close> is the
  ValueError raised \<open>from\<close> the exception \<open>cause\<close>, its message \<open>msg\<close> followed by the
  text of the cause. Strings are character lists.
  The \<open>isinstance\<close> guards of the source raise only on an argument that is not a
  \<open>str\<close>; on strings they have no branch.
\<close>

datatype error =
    IndexError
  | AttributeError
  | TypeError
  | ValueError string
  | ValueErrorFrom string error
  | ParseError
  | RequestException
  | OSError
  | FileNotFoundError
  | TimeoutException
  | WebDriverException

text \<open>Sequencing of two steps the first of which may raise.\<close>

definition ebind :: "error + 'a \<Rightarrow> ('a \<Rightarrow> error + 'b) \<Rightarrow> error + 'b" where
  "ebind m f = (case m of Inl e \<Rightarrow> Inl e | Inr v \<Rightarrow> f v)"

text \<open>\<open>s.split(sep)\<close> for a one-character separator: the result is never empty.\<close>

fun split_on :: "char \<Rightarrow> string \<Rightarrow> string list" where
  "split_on sep [] = [[]]"
| "split_on sep (c # cs) =
     (if c = sep then [] # split_on sep cs
      else (case split_on sep cs of
              [] \<Rightarrow> [[c]]
            | p # ps \<Rightarrow> (c # p) # ps))"

text \<open>\<open>xs[i]\<close> with Python's negative indices; out of range raises IndexError.\<close>

definition py_index :: "'a list \<Rightarrow> int \<Rightarrow> error + 'a" where
  "py_index xs i =
     (if 0 \<le> i \<and> i < int (length xs) then Inr (xs ! nat i)
      else if i < 0 \<and> - int (length xs) \<le> i then Inr (xs ! nat (int (length xs) + i))
      else Inl IndexError)"

section \<open>Site name: \<open>extract_main_part\<close>\<close>

text \<open>
  \<open>urlparse(url).netloc\<close> is library code; the model takes it as the parameter
  \<open>netloc\<close>, which may raise (the library raises ValueError on a malformed bracketed host).
\<close>

definition second_level_labels :: "string list" where
  "second_level_labels = [''co'', ''com'', ''net'', ''org'', ''gov'', ''edu'']"

definition extract_main_part :: "(string \<Rightarrow> error + string) \<Rightarrow> string \<Rightarrow> error + string" where
  "extract_main_part netloc url =
     ebind (netloc url) (\<lambda>host.
       let parts = split_on CHR ''.'' host in
       ebind (if 2 \<le> length parts
              then ebind (py_index parts (- 2)) (\<lambda>a.
                     if a = ''substack''
                     then ebind (py_index parts (- 1)) (\<lambda>b. Inr (b = ''com''))
                     else Inr False)
              else Inr False) (\<lambda>is_substack.
       if is_substack then py_index parts 0
       else if 2 \<le> length parts then
         ebind (py_index parts 0) (\<lambda>p0.
           let parts' = (if p0 = ''www'' then drop 1 parts else parts) in
           ebind (if 3 \<le> length parts'
                  then ebind (py_index parts' (- 2)) (\<lambda>a. Inr (a \<in> set second_level_labels))
                  else Inr False) (\<lambda>multi.
           if multi then py_index parts' (- 3)
           else if 2 \<le> length parts' then py_index parts' (- 2)
           else if parts' \<noteq> [] then py_index parts' 0 else Inr ''unknown''))
       else if parts \<noteq> [] then py_index parts 0 else Inr ''unknown''))"

subsection \<open>A reading of \<open>urlparse\<close> for concrete URLs\<close>

text \<open>
  For the concrete URLs used below, the part of \<open>urlparse\<close> that finds the network
  location: after a scheme (a letter, then letters, digits, \<open>+\<close>, \<open>-\<close> or \<open>.\<close>, up to
  the first colon), the location is what stands between \<open>//\<close> and the next \<open>/\<close>, \<open>?\<close>
  or \<open>#\<close>; without \<open>//\<close> there it is empty. An unmatched square bracket raises.
  What the library does besides (it drops leading control characters and checks the
  inside of a bracketed host) does not bear on these URLs.
\<close>

definition is_letter :: "char \<Rightarrow> bool" where
  "is_letter c = ((65 \<le> (of_char c :: nat) \<and> (of_char c :: nat) \<le> 90)
                  \<or> (97 \<le> (of_char c :: nat) \<and> (of_char c :: nat) \<le> 122))"

definition is_scheme_char :: "char \<Rightarrow> bool" where
  "is_scheme_char c = (is_letter c \<or> (48 \<le> (of_char c :: nat) \<and> (of_char c :: nat) \<le> 57)
                       \<or> c \<in> set ''+-.'')"

definition after_scheme :: "string \<Rightarrow> string" where
  "after_scheme url =
     (let head = takeWhile (\<lambda>c. c \<noteq> CHR '':'') url in
      if length head < length url \<and> head \<noteq> [] \<and> is_letter (hd url)
         \<and> list_all is_scheme_char head
      then drop (length head + 1) url else url)"

definition url_netloc :: "string \<Rightarrow> error + string" where
  "url_netloc url =
     (let rest = after_scheme url in
      if take 2 rest = ''//'' then
        (let loc = takeWhile (\<lambda>c. c \<notin> set ''/?#'') (drop 2 rest) in
         if (CHR ''['' \<in> set loc) \<noteq> (CHR '']'' \<in> set loc)
         then Inl (ValueError ''Invalid IPv6 URL'') else Inr loc)
      else Inr [])"

section \<open>URL filtering: \<open>filter_urls\<close>\<close>

text \<open>
  \<open>keyword in url\<close> on Python strings is the contiguous-substring test, \<^const>\<open>sublist\<close>.
\<close>

definition filter_urls :: "string list \<Rightarrow> string list \<Rightarrow> string list" where
  "filter_urls urls keywords =
     filter (\<lambda>url. list_all (\<lambda>keyword. \<not> sublist keyword url) keywords) urls"

definition default_keywords :: "string list" where
  "default_keywords = [''about'', ''archive'', ''podcast'']"

section \<open>The string builtins\<close>

text \<open>
  \<open>str.strip()\<close>, \<open>str.isdigit()\<close> and \<open>str.lower()\<close> are builtins of Python, defined
  by the tables of the Unicode standard. The functions of the source take them as the
  parameter \<open>py\<close>, so what is proved of the source holds whatever these tables are.
\<close>

record py_str =
  str_strip :: "string \<Rightarrow> string"
  str_isdigit :: "string \<Rightarrow> bool"
  str_lower :: "string \<Rightarrow> string"

subsection \<open>The builtins on the code points below 256\<close>

text \<open>
  For concrete inputs: the three builtins on text whose characters are the code points
  0 to 255. There \<open>isspace\<close> holds of 9 to 13, 28 to 32, 133 and 160, \<open>isdigit\<close> of the
  ten digits and of the superscripts 178, 179 and 185, and \<open>lower\<close> moves the capital
  letters 65 to 90 and 192 to 222 (but not the sign 215) up by 32.
\<close>

definition py_isspace :: "char \<Rightarrow> bool" where
  "py_isspace c =
     ((of_char c :: nat) \<in> set [9, 10, 11, 12, 13, 28, 29, 30, 31, 32, 133, 160])"

definition strip :: "string \<Rightarrow> string" where
  "strip s = rev (dropWhile py_isspace (rev (dropWhile py_isspace s)))"

definition py_isdigit_char :: "char \<Rightarrow> bool" where
  "py_isdigit_char c =
     ((48 \<le> (of_char c :: nat) \<and> (of_char c :: nat) \<le> 57)
      \<or> (of_char c :: nat) \<in> set [178, 179, 185])"

definition isdigit :: "string \<Rightarrow> bool" where
  "isdigit s = (s \<noteq> [] \<and> list_all py_isdigit_char s)"

definition lower_char :: "char \<Rightarrow> char" where
  "lower_char c =
     (if (65 \<le> (of_char c :: nat) \<and> (of_char c :: nat) \<le> 90)
         \<or> (192 \<le> (of_char c :: nat) \<and> (of_char c :: nat) \<le> 222
             \<and> (of_char c :: nat) \<noteq> 215)
      then char_of ((of_char c :: nat) + 32) else c)"

definition lower :: "string \<Rightarrow> string" where
  "lower s = map lower_char s"

definition latin1_str :: py_str where
  "latin1_str = \<lparr> str_strip = strip, str_isdigit = isdigit, str_lower = lower \<rparr>"

definition newline :: string where
  "newline = [CHR 0x0A]"

section \<open>Content extraction: \<open>extract_post_data\<close>\<close>

text \<open>
  A parsed document (\<open>BeautifulSoup\<close>) is modelled by what the selectors of the source
  find in it: the text of the first element matching \<open>h1.post-title, h2\<close>, of
  \<open>h3.subtitle\<close>, of the date \<open>div\<close>, of \<open>a.post-ufi-button .label\<close>, the markup of
  \<open>div.available-content\<close>, and whether an \<open>h2.paywall-title\<close> is present. \<open>None\<close> is
  an element that is not found. A found element is truthy in \<open>bs4\<close>.
\<close>

record soup =
  sel_title :: "string option"
  sel_subtitle :: "string option"
  sel_date :: "string option"
  sel_like_count :: "string option"
  sel_available_content :: "string option"
  sel_paywall_title :: bool

definition combine_metadata_and_content ::
  "string \<Rightarrow> string \<Rightarrow> string \<Rightarrow> string \<Rightarrow> string \<Rightarrow> string" where
  "combine_metadata_and_content title' subtitle' date' like_count' content =
     (let metadata = ''# '' @ title' @ newline @ newline;
          metadata = (if subtitle' \<noteq> [] then metadata @ ''## '' @ subtitle' @ newline @ newline
                      else metadata);
          metadata = metadata @ ''**'' @ date' @ ''**'' @ newline @ newline;
          metadata = metadata @ ''**Likes:** '' @ like_count' @ newline @ newline
      in metadata @ content)"

text \<open>
  \<open>html2text\<close> stands for \<open>html_to_md\<close>, a call into the html2text library. The title
  element is dereferenced without a test, so a document without one raises AttributeError;
  \<open>str(None)\<close> is the text \<open>None\<close>. The result is
  \<open>(title, subtitle, like_count, date, md_content)\<close>.
\<close>

definition extract_post_data ::
  "py_str \<Rightarrow> (string \<Rightarrow> string) \<Rightarrow> soup
     \<Rightarrow> error + (string \<times> string \<times> string \<times> string \<times> string)" where
  "extract_post_data py html2text doc =
     (case sel_title doc of
        None \<Rightarrow> Inl AttributeError
      | Some title_text \<Rightarrow>
          let title' = str_strip py title_text;
              subtitle' = (case sel_subtitle doc of Some s \<Rightarrow> str_strip py s | None \<Rightarrow> []);
              date' = (case sel_date doc of
                         Some d \<Rightarrow> str_strip py d
                       | None \<Rightarrow> ''Date not found'');
              like_count' = (case sel_like_count doc of
                               Some l \<Rightarrow> if str_isdigit py (str_strip py l)
                                         then str_strip py l else ''0''
                             | None \<Rightarrow> ''0'');
              content = (case sel_available_content doc of Some h \<Rightarrow> h | None \<Rightarrow> ''None'');
              md = html2text content;
              md_content = combine_metadata_and_content title' subtitle' date' like_count' md
          in Inr (title', subtitle', like_count', date', md_content))"

section \<open>URL discovery\<close>

record response =
  resp_ok :: bool
  resp_status_code :: nat
  resp_content :: string

datatype xml = Element (elem_tag: string) (elem_text: "string option") (elem_children: "xml list")

text \<open>
  The network and the XML parser are the environment: \<open>http_get\<close> is \<open>requests.get\<close>
  and \<open>xml_fromstring\<close> is \<open>ET.fromstring\<close>; either may raise.
\<close>

record web =
  http_get :: "string \<Rightarrow> error + response"
  xml_fromstring :: "string \<Rightarrow> error + xml"

text \<open>\<open>root.iter(t)\<close>: the elements with tag \<open>t\<close> in document order, the root included.\<close>

fun iter_tag :: "string \<Rightarrow> xml \<Rightarrow> xml list" where
  "iter_tag t (Element g x cs) =
     (if g = t then [Element g x cs] else []) @ concat (map (iter_tag t) cs)"

text \<open>\<open>root.findall('.//item')\<close>: the proper descendants with tag \<open>item\<close>.\<close>

definition findall_items :: "xml \<Rightarrow> xml list" where
  "findall_items root = concat (map (iter_tag ''item'') (elem_children root))"

text \<open>\<open>item.find('link')\<close>: the first child with tag \<open>link\<close>.\<close>

definition find_link :: "xml \<Rightarrow> xml option" where
  "find_link item = find (\<lambda>c. elem_tag c = ''link'') (elem_children item)"

definition sitemap_loc :: string where
  "sitemap_loc = ''{http://www.sitemaps.org/schemas/sitemap/0.9}loc''"

text \<open>
  Each discovery function returns the list of addresses it requested, in order, and its
  result. The sitemap's URLs are the \<open>text\<close> of the \<open>loc\<close> elements, which is \<open>None\<close>
  for an empty element.
\<close>

definition fetch_urls_from_sitemap ::
  "web \<Rightarrow> string \<Rightarrow> string list \<times> (error + string option list)" where
  "fetch_urls_from_sitemap w base_substack_url =
     (let sitemap_url = base_substack_url @ ''sitemap.xml'' in
      ([sitemap_url],
       case http_get w sitemap_url of
         Inl e \<Rightarrow> Inl e
       | Inr resp \<Rightarrow>
           if \<not> resp_ok resp then Inr []
           else (case xml_fromstring w (resp_content resp) of
                   Inl e \<Rightarrow> Inl e
                 | Inr root \<Rightarrow> Inr (map elem_text (iter_tag sitemap_loc root)))))"

definition fetch_urls_from_feed ::
  "web \<Rightarrow> string \<Rightarrow> string list \<times> (error + string list)" where
  "fetch_urls_from_feed w base_substack_url =
     (let feed_url = base_substack_url @ ''feed.xml'' in
      ([feed_url],
       case http_get w feed_url of
         Inl e \<Rightarrow> Inl e
       | Inr resp \<Rightarrow>
           if \<not> resp_ok resp then Inr []
           else (case xml_fromstring w (resp_content resp) of
                   Inl e \<Rightarrow> Inl e
                 | Inr root \<Rightarrow>
                     Inr (concat (map (\<lambda>item.
                            case find_link item of
                              None \<Rightarrow> []
                            | Some link \<Rightarrow>
                                (case elem_text link of
                                   None \<Rightarrow> []
                                 | Some t \<Rightarrow> if t \<noteq> [] then [t] else []))
                          (findall_items root))))))"

text \<open>
  \<open>self.keywords\<close> is the fixed list \<^const>\<open>default_keywords\<close>. The filter evaluates
  \<open>keyword not in url\<close> on every URL, which raises TypeError on a \<open>None\<close> URL.
\<close>

definition filter_discovered :: "string option list \<Rightarrow> error + string list" where
  "filter_discovered urls =
     (if None \<in> set urls then Inl TypeError
      else Inr (filter_urls (List.map_filter (\<lambda>u. u) urls) default_keywords))"

definition get_all_post_urls :: "web \<Rightarrow> string \<Rightarrow> string list \<times> (error + string list)" where
  "get_all_post_urls w base_substack_url =
     (case fetch_urls_from_sitemap w base_substack_url of
        (log1, Inl e) \<Rightarrow> (log1, Inl e)
      | (log1, Inr urls) \<Rightarrow>
          if urls = [] then
            (case fetch_urls_from_feed w base_substack_url of
               (log2, Inl e) \<Rightarrow> (log1 @ log2, Inl e)
             | (log2, Inr urls') \<Rightarrow> (log1 @ log2, filter_discovered (map Some urls')))
          else (log1, filter_discovered urls))"

subsection \<open>Two concrete sites\<close>

text \<open>
  A feed document with one post and its parse tree; a parser that knows this document
  only; a site whose sitemap answers 404, and one whose sitemap answers 200 with a
  document that does not parse.
\<close>

definition example_feed :: string where
  "example_feed =
     ''<rss><channel><item><link>https://x.substack.com/p/a</link></item></channel></rss>''"

definition example_feed_tree :: xml where
  "example_feed_tree =
     Element ''rss'' None
       [Element ''channel'' None
          [Element ''item'' None
             [Element ''link'' (Some ''https://x.substack.com/p/a'') []]]]"

definition example_parser :: "string \<Rightarrow> error + xml" where
  "example_parser doc = (if doc = example_feed then Inr example_feed_tree else Inl ParseError)"

definition sitemap_404_site :: web where
  "sitemap_404_site =
     \<lparr> http_get = (\<lambda>address.
          if address = ''https://x.substack.com/sitemap.xml''
          then Inr \<lparr> resp_ok = False, resp_status_code = 404, resp_content = ''Not Found'' \<rparr>
          else Inr \<lparr> resp_ok = True, resp_status_code = 200, resp_content = example_feed \<rparr>),
       xml_fromstring = example_parser \<rparr>"

definition sitemap_malformed_site :: web where
  "sitemap_malformed_site =
     \<lparr> http_get = (\<lambda>address.
          if address = ''https://x.substack.com/sitemap.xml''
          then Inr \<lparr> resp_ok = True, resp_status_code = 200, resp_content = ''<urlset><url>'' \<rparr>
          else Inr \<lparr> resp_ok = True, resp_status_code = 200, resp_content = example_feed \<rparr>),
       xml_fromstring = example_parser \<rparr>"

section \<open>Fetching a post: the two \<open>get_url_soup\<close> methods\<close>

text \<open>
  \<open>SubstackScraper.get_url_soup\<close>: one GET, parsed by \<open>BeautifulSoup\<close> (the parameter
  \<open>parse_html\<close>); a paywall title gives \<open>None\<close>; any exception of the GET or of the
  parser is raised again as a ValueError chained to its cause.
\<close>

definition SubstackScraper_get_url_soup ::
  "(string \<Rightarrow> error + response) \<Rightarrow> (string \<Rightarrow> error + soup) \<Rightarrow> string
     \<Rightarrow> error + soup option" where
  "SubstackScraper_get_url_soup requests_get parse_html url =
     (case requests_get url of
        Inl e \<Rightarrow> Inl (ValueErrorFrom ''Error fetching page: '' e)
      | Inr page \<Rightarrow>
          (case parse_html (resp_content page) of
             Inl e \<Rightarrow> Inl (ValueErrorFrom ''Error fetching page: '' e)
           | Inr doc \<Rightarrow> if sel_paywall_title doc then Inr None else Inr (Some doc)))"

text \<open>
  The browser of \<open>PremiumSubstackScraper\<close>. \<open>navigate\<close> is \<open>driver.get(url)\<close>: it raises,
  or the page is loading, and \<open>view k\<close> is what the driver shows \<open>k\<close> half-seconds later:
  the exception, if any, that a search for elements raises at that moment, which of the
  four markers and of the loading indicators are found, and \<open>driver.page_source\<close>, which
  may raise too. \<open>wait_polls\<close> is the number of polls
  \<open>WebDriverWait(driver, 5, 0.5).until\<close> makes before it raises TimeoutException.
\<close>

record page_view =
  find_elements_error :: "error option"
  has_available_content :: bool
  has_post_title :: bool
  has_paywall_title :: bool
  has_post_content :: bool
  has_loading_indicator :: bool
  page_source :: "error + string"

record browser =
  navigate :: "string \<Rightarrow> error + (nat \<Rightarrow> page_view)"
  wait_polls :: nat

definition ready :: "page_view \<Rightarrow> bool" where
  "ready v = (has_available_content v \<or> has_post_title v \<or> has_paywall_title v
              \<or> has_post_content v)"

text \<open>One evaluation of the condition passed to \<open>wait.until\<close>.\<close>

definition poll :: "page_view \<Rightarrow> error + bool" where
  "poll v = (case find_elements_error v of Some e \<Rightarrow> Inl e | None \<Rightarrow> Inr (ready v))"

text \<open>
  \<open>wait.until\<close>: the tick at which the wait ends, and the exception it ends with, if any:
  the one raised by a poll, or TimeoutException after the given number of polls.
\<close>

fun wait_until :: "nat \<Rightarrow> (nat \<Rightarrow> error + bool) \<Rightarrow> nat \<Rightarrow> nat \<times> error option" where
  "wait_until 0 cond tick = (tick, Some TimeoutException)"
| "wait_until (Suc polls) cond tick =
     (case cond tick of
        Inl e \<Rightarrow> (tick, Some e)
      | Inr found \<Rightarrow> if found then (tick, None) else wait_until polls cond (Suc tick))"

text \<open>
  The inner \<open>try\<close> catches whatever the wait raises and only prints; \<open>sleep(1)\<close> is two
  ticks. Then the page source of that moment is read and parsed, inside the outer \<open>try\<close>,
  which raises every exception again as a ValueError chained to its cause.
\<close>

definition PremiumSubstackScraper_get_url_soup ::
  "browser \<Rightarrow> (string \<Rightarrow> error + soup) \<Rightarrow> string \<Rightarrow> error + soup option" where
  "PremiumSubstackScraper_get_url_soup driver parse_html url =
     (case navigate driver url of
        Inl e \<Rightarrow> Inl (ValueErrorFrom ''Error fetching page: '' e)
      | Inr view \<Rightarrow>
          let tick = (case wait_until (wait_polls driver) (\<lambda>k. poll (view k)) 0 of
                        (k, Some e) \<Rightarrow> k
                      | (k, None) \<Rightarrow> if has_loading_indicator (view k) then k + 2 else k)
          in (case page_source (view tick) of
                Inl e \<Rightarrow> Inl (ValueErrorFrom ''Error fetching page: '' e)
              | Inr html \<Rightarrow>
                  (case parse_html html of
                     Inl e \<Rightarrow> Inl (ValueErrorFrom ''Error fetching page: '' e)
                   | Inr doc \<Rightarrow> Inr (Some doc))))"

subsection \<open>Two pages\<close>

text \<open>
  A page on which no marker ever appears, and a page whose content container appears at
  the third poll, with a parser that finds nothing in the first and a title in the second.
\<close>

definition empty_soup :: soup where
  "empty_soup = \<lparr> sel_title = None, sel_subtitle = None, sel_date = None,
       sel_like_count = None, sel_available_content = None, sel_paywall_title = False \<rparr>"

definition titled_soup :: soup where
  "titled_soup = \<lparr> sel_title = Some ''Post'', sel_subtitle = None, sel_date = None,
       sel_like_count = None, sel_available_content = Some ''<p>x</p>'',
       sel_paywall_title = False \<rparr>"

definition stalled_view :: "nat \<Rightarrow> page_view" where
  "stalled_view k = \<lparr> find_elements_error = None, has_available_content = False,
       has_post_title = False, has_paywall_title = False, has_post_content = False,
       has_loading_indicator = True, page_source = Inr ''<html><body></body></html>'' \<rparr>"

definition stalled_browser :: browser where
  "stalled_browser = \<lparr> navigate = (\<lambda>url. Inr stalled_view), wait_polls = 11 \<rparr>"

definition loading_view :: "nat \<Rightarrow> page_view" where
  "loading_view k = \<lparr> find_elements_error = None, has_available_content = (2 \<le> k),
       has_post_title = False, has_paywall_title = False, has_post_content = False,
       has_loading_indicator = False,
       page_source = Inr (if 2 \<le> k then ''<h1>Post</h1>'' else ''<html></html>'') \<rparr>"

definition loading_browser :: browser where
  "loading_browser = \<lparr> navigate = (\<lambda>url. Inr loading_view), wait_polls = 11 \<rparr>"

definition example_page_parser :: "string \<Rightarrow> error + soup" where
  "example_page_parser html =
     (if html = ''<h1>Post</h1>'' then Inr titled_soup else Inr empty_soup)"

section \<open>Authentication: \<open>login\<close>\<close>

text \<open>
  What the driver answers during the login: \<open>driver.current_url\<close>, the elements with id
  \<open>error-container\<close> and the elements matching the other error selectors, each element
  with \<open>is_displayed()\<close> and its text. Each of the three queries may raise. \<open>view_at t\<close>
  is the page after \<open>t\<close> seconds of sleeping. \<open>open_sign_in\<close> is the exception, if any, of
  the first \<open>driver.get\<close>, which is outside the \<open>try\<close>; \<open>credential_steps\<close> is the
  exception, if any, raised inside the \<open>try\<close> before the wait loop (finding the fields,
  typing, clicking).
\<close>

record login_view =
  current_url :: "error + string"
  error_containers :: "error + (bool \<times> string) list"
  error_messages :: "error + (bool \<times> string) list"

record login_session =
  open_sign_in :: "error option"
  credential_steps :: "error option"
  view_at :: "nat \<Rightarrow> login_view"

text \<open>The address the login opens, and the text the source looks for in the current URL.\<close>

definition sign_in_url :: string where
  "sign_in_url = ''https://substack.com/sign-in''"

definition sign_in_surface :: string where
  "sign_in_surface = ''substack.com/sign-in''"

definition login_failed_message :: string where
  "login_failed_message =
     ''Login failed. Possible issues:'' @ newline @
     ''1. CAPTCHA not solved correctly'' @ newline @
     ''2. Invalid credentials'' @ newline @
     ''3. Account locked or suspended'' @ newline @
     ''4. Substack login page structure changed'' @ newline @
     ''Check the browser window for error messages.''"

text \<open>\<open>range(120, 0, -10)\<close>.\<close>

definition countdown :: "int list" where
  "countdown = [120, 110, 100, 90, 80, 70, 60, 50, 40, 30, 20, 10]"

text \<open>
  The wait loop: the seconds slept so far and how the loop ended: by the \<open>return\<close>
  inside it, by leaving it (the \<open>break\<close>, or the range is used up), or by an exception
  of a query. Each round sleeps 10 seconds, then looks at the page.
\<close>

datatype wait_end = Returned | Left_loop | Raised error

fun challenge_wait ::
  "py_str \<Rightarrow> (nat \<Rightarrow> login_view) \<Rightarrow> int list \<Rightarrow> nat \<Rightarrow> nat \<times> wait_end" where
  "challenge_wait py view [] clock = (clock, Left_loop)"
| "challenge_wait py view (i # rest) clock =
     (let clock' = clock + 10; v = view clock' in
      case current_url v of
        Inl e \<Rightarrow> (clock', Raised e)
      | Inr url \<Rightarrow>
          if \<not> sublist sign_in_surface url then (clock', Returned)
          else (case error_containers v of
                  Inl e \<Rightarrow> (clock', Raised e)
                | Inr containers \<Rightarrow>
                    (case containers of
                       [] \<Rightarrow> challenge_wait py view rest clock'
                     | (displayed, error_text) # _ \<Rightarrow>
                         if displayed then
                           (if sublist ''captcha'' (str_lower py error_text)
                            then challenge_wait py view rest clock'
                            else (clock', Left_loop))
                         else challenge_wait py view rest clock')))"

definition is_login_failed :: "py_str \<Rightarrow> login_view \<Rightarrow> error + bool" where
  "is_login_failed py v =
     ebind (error_containers v) (\<lambda>containers.
       if (case containers of [] \<Rightarrow> False | (displayed, _) # _ \<Rightarrow> displayed) then Inr True
       else ebind (current_url v) (\<lambda>url.
         if sublist sign_in_surface url then Inr True
         else ebind (error_messages v) (\<lambda>messages.
           Inr (list_ex (\<lambda>(displayed, t). displayed \<and> str_strip py t \<noteq> []) messages))))"

text \<open>
  The final check of \<open>login\<close>: the explicit ValueError when \<open>is_login_failed\<close> holds.
  It is outside the \<open>try\<close>: an exception of its queries leaves \<open>login\<close> as it is.
\<close>

definition final_check :: "py_str \<Rightarrow> login_view \<Rightarrow> error + unit" where
  "final_check py v =
     ebind (is_login_failed py v) (\<lambda>failed.
       if failed then Inl (ValueError login_failed_message) else Inr ())"

text \<open>
  The result of \<open>login\<close>, with the seconds it slept. An exception inside the \<open>try\<close>
  reaches the handler, which sleeps 10 seconds more; then comes the final check.
\<close>

definition login :: "py_str \<Rightarrow> login_session \<Rightarrow> nat \<times> (error + unit)" where
  "login py s =
     (case open_sign_in s of
        Some e \<Rightarrow> (0, Inl e)
      | None \<Rightarrow>
          (case (case credential_steps s of
                   Some e \<Rightarrow> (0, Raised e)
                 | None \<Rightarrow> challenge_wait py (view_at s) countdown 0) of
             (clock, Returned) \<Rightarrow> (clock, Inr ())
           | (clock, ending) \<Rightarrow>
               let clock = (case ending of Raised e \<Rightarrow> clock + 10 | _ \<Rightarrow> clock)
               in (clock, final_check py (view_at s clock))))"

text \<open>
  A look that answers, finds the URL still on the sign-in address, and finds no displayed
  error other than a pending challenge: the loop goes on after such a look.
\<close>

definition still_pending :: "py_str \<Rightarrow> login_view \<Rightarrow> bool" where
  "still_pending py v =
     (case current_url v of
        Inl e \<Rightarrow> False
      | Inr url \<Rightarrow>
          sublist sign_in_surface url \<and>
          (case error_containers v of
             Inl e \<Rightarrow> False
           | Inr containers \<Rightarrow>
               (case containers of
                  [] \<Rightarrow> True
                | (displayed, error_text) # _ \<Rightarrow>
                    displayed \<longrightarrow> sublist ''captcha'' (str_lower py error_text))))"

subsection \<open>Some login sessions\<close>

text \<open>
  A session that stays on the sign-in page with the challenge pending; one that has left
  the sign-in page at the first look; one that leaves it at the third look; one that is
  sent to an address that is not the sign-in address but contains it; and one whose look
  after 120 seconds raises.
\<close>

definition pending_view :: login_view where
  "pending_view = \<lparr> current_url = Inr ''https://substack.com/sign-in'',
       error_containers = Inr [(True, ''Please complete the CAPTCHA'')],
       error_messages = Inr [] \<rparr>"

definition stuck_session :: login_session where
  "stuck_session = \<lparr> open_sign_in = None, credential_steps = None,
       view_at = (\<lambda>t. pending_view) \<rparr>"

definition home_view :: login_view where
  "home_view = \<lparr> current_url = Inr ''https://substack.com/home'',
       error_containers = Inr [], error_messages = Inr [] \<rparr>"

definition solved_session :: login_session where
  "solved_session = \<lparr> open_sign_in = None, credential_steps = None,
       view_at = (\<lambda>t. home_view) \<rparr>"

definition late_session :: login_session where
  "late_session = \<lparr> open_sign_in = None, credential_steps = None,
       view_at = (\<lambda>t. if t < 30 then pending_view else home_view) \<rparr>"

definition redirect_view :: login_view where
  "redirect_view = \<lparr> current_url = Inr ''https://substack.com/sign-in?redirect=%2Finbox'',
       error_containers = Inr [], error_messages = Inr [] \<rparr>"

definition redirect_session :: login_session where
  "redirect_session = \<lparr> open_sign_in = None, credential_steps = None,
       view_at = (\<lambda>t. redirect_view) \<rparr>"

definition broken_look_session :: login_session where
  "broken_look_session = \<lparr> open_sign_in = None, credential_steps = None,
       view_at = (\<lambda>t. if t = 120 then pending_view\<lparr>current_url := Inl WebDriverException\<rparr>
                       else pending_view) \<rparr>"

section \<open>Persistence and the per-post loop\<close>

record post_record =
  title :: string
  subtitle :: string
  like_count :: string
  date :: string
  file_link :: string
  html_link :: string

text \<open>
  The scraper object and its surroundings: the site name, the discovered URLs, the
  \<open>get_url_soup\<close> of the subclass, the string builtins, the two library conversions, the paths that cannot be
  opened for writing (\<open>open\<close> raises OSError there), the HTML template file and the
  templating of the index page.
\<close>

record scraper =
  writer_name :: string
  post_urls :: "string list"
  get_url_soup :: "string \<Rightarrow> error + soup option"
  str_ops :: py_str
  html2text_handle :: "string \<Rightarrow> string"
  markdown_markdown :: "string \<Rightarrow> string"
  write_fails :: "string \<Rightarrow> bool"
  html_template :: "string option"
  render_index :: "string \<Rightarrow> string \<Rightarrow> post_record list \<Rightarrow> string"

text \<open>
  The disk: the Markdown and HTML files by path, the JSON index of the site (a list of
  records), the index page, and the URLs requested through \<open>get_url_soup\<close> so far. The
  index and the index page live directly in the site's directory, the posts in its
  \<open>markdown\<close> and \<open>html\<close> subdirectories, and a file name never contains a slash, so
  no post path is the path of the index or of the index page.
\<close>

record site_state =
  files :: "string \<rightharpoonup> string"
  index_json :: "post_record list option"
  index_html :: "string option"
  fetched :: "string list"

definition base_output_dir :: "scraper \<Rightarrow> string" where
  "base_output_dir sc = ''substacks/'' @ writer_name sc"

definition md_save_dir :: "scraper \<Rightarrow> string" where
  "md_save_dir sc = base_output_dir sc @ ''/markdown''"

definition html_save_dir :: "scraper \<Rightarrow> string" where
  "html_save_dir sc = base_output_dir sc @ ''/html''"

definition json_path :: "scraper \<Rightarrow> string" where
  "json_path sc = base_output_dir sc @ ''/'' @ writer_name sc @ ''.json''"

definition html_output_path :: "scraper \<Rightarrow> string" where
  "html_output_path sc = base_output_dir sc @ ''/index.html''"

text \<open>\<open>url.split("/")[-1]\<close> is the last piece; \<open>split\<close> never returns the empty list.\<close>

definition get_filename_from_url :: "string \<Rightarrow> string \<Rightarrow> string" where
  "get_filename_from_url url filetype =
     (let filetype = (if prefix ''.'' filetype then filetype else ''.'' @ filetype)
      in last (split_on CHR ''/'' url) @ filetype)"

definition save_to_file ::
  "(string \<Rightarrow> bool) \<Rightarrow> string \<Rightarrow> string \<Rightarrow> (string \<rightharpoonup> string) \<Rightarrow> error + (string \<rightharpoonup> string)" where
  "save_to_file cannot_open filepath content fs =
     (if filepath \<in> dom fs then Inr fs
      else if cannot_open filepath then Inl OSError
      else Inr (fs(filepath \<mapsto> content)))"

definition dq :: string where
  "dq = [CHR 0x22]"

definition html_page :: "string \<Rightarrow> string \<Rightarrow> string" where
  "html_page css_path content =
     ''<!DOCTYPE html>'' @ newline @
     ''<html lang='' @ dq @ ''en'' @ dq @ ''>'' @ newline @
     ''<head>'' @ newline @
     ''    <meta charset='' @ dq @ ''UTF-8'' @ dq @ ''>'' @ newline @
     ''    <meta name='' @ dq @ ''viewport'' @ dq @ '' content='' @ dq
        @ ''width=device-width, initial-scale=1.0'' @ dq @ ''>'' @ newline @
     ''    <title>Markdown Content</title>'' @ newline @
     ''    <link rel='' @ dq @ ''stylesheet'' @ dq @ '' href='' @ dq @ css_path @ dq @ ''>''
        @ newline @
     ''</head>'' @ newline @
     ''<body>'' @ newline @
     ''    <main class='' @ dq @ ''markdown-content'' @ dq @ ''>'' @ newline @
     content @ newline @
     ''    </main>'' @ newline @
     ''</body>'' @ newline @
     ''</html>''"

text \<open>
  The HTML files are in \<open>html\<close> under the site's directory and the stylesheet in
  \<open>assets/css\<close>, so the relative path computed by the source is the constant below.
  The file is opened for writing without an existence test.
\<close>

definition save_to_html_file ::
  "(string \<Rightarrow> bool) \<Rightarrow> string \<Rightarrow> string \<Rightarrow> (string \<rightharpoonup> string) \<Rightarrow> error + (string \<rightharpoonup> string)" where
  "save_to_html_file cannot_open filepath content fs =
     (let css_path = ''../assets/css/essay-styles.css'';
          html_content = html_page css_path content
      in if cannot_open filepath then Inl OSError
         else Inr (fs(filepath \<mapsto> html_content)))"

definition save_essays_data_to_json ::
  "scraper \<Rightarrow> post_record list \<Rightarrow> site_state \<Rightarrow> error + site_state" where
  "save_essays_data_to_json sc essays_data st =
     (let essays_data =
            (case index_json st of
               Some existing_data \<Rightarrow>
                 existing_data @ filter (\<lambda>data. data \<notin> set existing_data) essays_data
             | None \<Rightarrow> essays_data)
      in if write_fails sc (json_path sc) then Inl OSError
         else Inr (st\<lparr>index_json := Some essays_data\<rparr>))"

definition generate_html_file :: "scraper \<Rightarrow> site_state \<Rightarrow> error + site_state" where
  "generate_html_file sc st =
     (case index_json st of
        None \<Rightarrow> Inl FileNotFoundError
      | Some essays_data \<Rightarrow>
          (case html_template sc of
             None \<Rightarrow> Inl FileNotFoundError
           | Some template \<Rightarrow>
               if write_fails sc (html_output_path sc) then Inl OSError
               else Inr (st\<lparr>index_html :=
                             Some (render_index sc template (writer_name sc) essays_data)\<rparr>)))"

text \<open>
  One round of the loop of \<open>scrape_posts\<close>, up to the \<open>except\<close>: the state it leaves and
  either the exception it raised or how it ended. The links of a record are the paths
  relative to the site's directory.
\<close>

datatype outcome = AlreadyExists | NoSoup | Recorded post_record

definition process_post :: "scraper \<Rightarrow> string \<Rightarrow> site_state \<Rightarrow> site_state \<times> (error + outcome)" where
  "process_post sc url st =
     (let md_filename = get_filename_from_url url ''.md'';
          html_filename = get_filename_from_url url ''.html'';
          md_filepath = md_save_dir sc @ ''/'' @ md_filename;
          html_filepath = html_save_dir sc @ ''/'' @ html_filename
      in if md_filepath \<in> dom (files st) then (st, Inr AlreadyExists)
         else
           let st = st\<lparr>fetched := fetched st @ [url]\<rparr> in
           (case get_url_soup sc url of
              Inl e \<Rightarrow> (st, Inl e)
            | Inr None \<Rightarrow> (st, Inr NoSoup)
            | Inr (Some doc) \<Rightarrow>
                (case extract_post_data (str_ops sc) (html2text_handle sc) doc of
                   Inl e \<Rightarrow> (st, Inl e)
                 | Inr (title', subtitle', like_count', date', md) \<Rightarrow>
                     (case save_to_file (write_fails sc) md_filepath md (files st) of
                        Inl e \<Rightarrow> (st, Inl e)
                      | Inr fs1 \<Rightarrow>
                          let st = st\<lparr>files := fs1\<rparr>;
                              html_content = markdown_markdown sc md
                          in (case save_to_html_file (write_fails sc) html_filepath
                                     html_content (files st) of
                                Inl e \<Rightarrow> (st, Inl e)
                              | Inr fs2 \<Rightarrow>
                                  (st\<lparr>files := fs2\<rparr>,
                                   Inr (Recorded
                                     \<lparr> title = title', subtitle = subtitle',
                                       like_count = like_count', date = date',
                                       file_link = ''markdown/'' @ md_filename,
                                       html_link = ''html/'' @ html_filename \<rparr>)))))))"

text \<open>
  The loop over the URLs, with the batch \<open>essays_data\<close> and \<open>count\<close>. \<open>continue\<close> (no
  soup) skips the increment of \<open>count\<close> and the limit test; an exception is caught, and
  the round ends like any other. (\<open>total\<close> only feeds the progress bar.)
\<close>

fun scrape_loop ::
  "scraper \<Rightarrow> int \<Rightarrow> string list \<Rightarrow> site_state \<Rightarrow> post_record list \<Rightarrow> nat
     \<Rightarrow> site_state \<times> post_record list \<times> nat" where
  "scrape_loop sc num_posts_to_scrape [] st essays_data count = (st, essays_data, count)"
| "scrape_loop sc num_posts_to_scrape (url # urls) st essays_data count =
     (case process_post sc url st of
        (st', r) \<Rightarrow>
          if r = Inr NoSoup then scrape_loop sc num_posts_to_scrape urls st' essays_data count
          else
            let essays_data = (case r of
                                 Inr (Recorded d) \<Rightarrow> essays_data @ [d]
                               | _ \<Rightarrow> essays_data);
                count = count + 1
            in if num_posts_to_scrape \<noteq> 0 \<and> int count = num_posts_to_scrape
               then (st', essays_data, count)
               else scrape_loop sc num_posts_to_scrape urls st' essays_data count)"

definition scrape_posts :: "scraper \<Rightarrow> int \<Rightarrow> site_state \<Rightarrow> error + site_state" where
  "scrape_posts sc num_posts_to_scrape st =
     (case scrape_loop sc num_posts_to_scrape (post_urls sc) st [] 0 of
        (st', essays_data, count) \<Rightarrow>
          ebind (save_essays_data_to_json sc essays_data st') (generate_html_file sc))"

subsection \<open>A concrete site and scraper\<close>

text \<open>
  A toy site: the page at \<open>/p/down\<close> cannot be reached, the page at \<open>/p/two\<close> is empty
  and so has no title element, every other page has the body \<open>Post\<close>. The toy parser
  takes the whole body as title and as content. Every path can be written.
\<close>

definition example_requests_get :: "string \<Rightarrow> error + response" where
  "example_requests_get url =
     (if url = ''https://x.substack.com/p/down'' then Inl RequestException
      else Inr \<lparr> resp_ok = True, resp_status_code = 200,
                 resp_content = (if url = ''https://x.substack.com/p/two'' then [] else ''Post'') \<rparr>)"

definition example_soup :: "string \<Rightarrow> soup" where
  "example_soup html =
     \<lparr> sel_title = (if html = [] then None else Some html), sel_subtitle = None,
       sel_date = None, sel_like_count = None, sel_available_content = Some html,
       sel_paywall_title = False \<rparr>"

definition example_parse_html :: "string \<Rightarrow> error + soup" where
  "example_parse_html html = Inr (example_soup html)"

definition example_scraper :: "string list \<Rightarrow> scraper" where
  "example_scraper urls =
     \<lparr> writer_name = ''x'', post_urls = urls,
       get_url_soup = SubstackScraper_get_url_soup example_requests_get example_parse_html,
       str_ops = latin1_str,
       html2text_handle = id, markdown_markdown = id,
       write_fails = (\<lambda>path. False),
       html_template = Some ''<html></html>'',
       render_index = (\<lambda>template author essays. template) \<rparr>"

definition empty_site :: site_state where
  "empty_site = \<lparr> files = Map.empty, index_json = None, index_html = None, fetched = [] \<rparr>"

definition example_record :: "string \<Rightarrow> post_record" where
  "example_record name =
     \<lparr> title = ''Post'', subtitle = [], like_count = ''0'', date = ''Date not found'',
       file_link = ''markdown/'' @ name @ ''.md'', html_link = ''html/'' @ name @ ''.html'' \<rparr>"

subsection \<open>Notions used in the proofs about the loop\<close>

text \<open>
  The two target paths of a URL, and the URLs whose round ends before the Markdown file is
  written whatever the disk holds: the fetch raises or gives no soup, extraction raises,
  or the Markdown path cannot be opened.
\<close>

definition md_filepath_of :: "scraper \<Rightarrow> string \<Rightarrow> string" where
  "md_filepath_of sc url = md_save_dir sc @ ''/'' @ get_filename_from_url url ''.md''"

definition html_filepath_of :: "scraper \<Rightarrow> string \<Rightarrow> string" where
  "html_filepath_of sc url = html_save_dir sc @ ''/'' @ get_filename_from_url url ''.html''"

definition never_written :: "scraper \<Rightarrow> string \<Rightarrow> bool" where
  "never_written sc url =
     (case get_url_soup sc url of
        Inl e \<Rightarrow> True
      | Inr None \<Rightarrow> True
      | Inr (Some doc) \<Rightarrow>
          (case extract_post_data (str_ops sc) (html2text_handle sc) doc of
             Inl e \<Rightarrow> True
           | Inr d \<Rightarrow> write_fails sc (md_filepath_of sc url)))"

section \<open>Basic facts about the Python values\<close>

lemma ebind_Inr: "ebind (Inr v) f = f v"
  by (simp add: ebind_def)


lemma split_on_not_Nil: "split_on sep s \<noteq> []"
  by (induction s) (auto split: list.splits)

lemma split_on_append_sep:
  "sep \<notin> set a \<Longrightarrow> split_on sep (a @ sep # b) = a # split_on sep b"
  by (induction a) (auto simp: split_on_not_Nil split: list.splits)

lemma py_index_0: "xs \<noteq> [] \<Longrightarrow> py_index xs 0 = Inr (hd xs)"
  by (cases xs) (auto simp: py_index_def)

lemma py_index_neg:
  "0 < k \<Longrightarrow> k \<le> length xs \<Longrightarrow> py_index xs (- int k) = Inr (xs ! (length xs - k))"
  by (auto simp: py_index_def nat_diff_distrib' of_nat_diff)

lemma py_index_m1: "xs \<noteq> [] \<Longrightarrow> py_index xs (- 1) = Inr (last xs)"
  using py_index_neg [of 1 xs] by (cases xs rule: rev_cases) (auto simp: nth_append)

lemma py_index_m2: "2 \<le> length xs \<Longrightarrow> py_index xs (- 2) = Inr (xs ! (length xs - 2))"
  using py_index_neg [of 2 xs] by simp

lemma py_index_m3: "3 \<le> length xs \<Longrightarrow> py_index xs (- 3) = Inr (xs ! (length xs - 3))"
  using py_index_neg [of 3 xs] by simp

section \<open>Site-name derivation\<close>

lemma substack_test:
  "(if 2 \<le> length ps
    then ebind (py_index ps (- 2)) (\<lambda>a.
           if a = ''substack''
           then ebind (py_index ps (- 1)) (\<lambda>b. Inr (b = ''com''))
           else Inr False)
    else Inr False)
   = Inr (2 \<le> length ps \<and> ps ! (length ps - 2) = ''substack'' \<and> last ps = ''com'')"
proof (cases "2 \<le> length ps")
  case True
  then have "ps \<noteq> []" by auto
  with True show ?thesis by (simp add: py_index_m2 py_index_m1 ebind_Inr)
qed simp

lemma multi_part_test:
  "(if 3 \<le> length qs
    then ebind (py_index qs (- 2)) (\<lambda>a. Inr (a \<in> set second_level_labels))
    else Inr False)
   = Inr (3 \<le> length qs \<and> qs ! (length qs - 2) \<in> set second_level_labels)"
  by (simp add: py_index_m2 ebind_Inr)

lemma label_choice:
  "qs \<noteq> [] \<Longrightarrow>
   (if multi then py_index qs (- 3)
    else if 2 \<le> length qs then py_index qs (- 2)
    else if qs \<noteq> [] then py_index qs 0 else Inr ''unknown'')
   = (if multi then py_index qs (- 3)
      else Inr (if 2 \<le> length qs then qs ! (length qs - 2) else hd qs))"
  by (simp add: py_index_m2 py_index_0)

lemma extract_main_part_host:
  assumes host: "netloc url = Inr host"
  shows "extract_main_part netloc url =
     (let ps = split_on CHR ''.'' host;
          qs = (if hd ps = ''www'' then tl ps else ps)
      in Inr (if 2 \<le> length ps \<and> ps ! (length ps - 2) = ''substack'' \<and> last ps = ''com''
                then hd ps
              else if 2 \<le> length ps \<and> 3 \<le> length qs
                      \<and> qs ! (length qs - 2) \<in> set second_level_labels
                then qs ! (length qs - 3)
              else if 2 \<le> length ps \<and> 2 \<le> length qs then qs ! (length qs - 2)
              else if 2 \<le> length ps then hd qs
              else hd ps))"
proof -
  define ps where "ps = split_on CHR ''.'' host"
  have ne: "ps \<noteq> []" by (simp add: ps_def split_on_not_Nil)
  have start: "extract_main_part netloc url =
       ebind (Inr (2 \<le> length ps \<and> ps ! (length ps - 2) = ''substack'' \<and> last ps = ''com''))
        (\<lambda>is_substack.
       if is_substack then py_index ps 0
       else if 2 \<le> length ps then
         ebind (py_index ps 0) (\<lambda>p0.
           let parts' = (if p0 = ''www'' then drop 1 ps else ps) in
           ebind (if 3 \<le> length parts'
                  then ebind (py_index parts' (- 2)) (\<lambda>a. Inr (a \<in> set second_level_labels))
                  else Inr False) (\<lambda>multi.
           if multi then py_index parts' (- 3)
           else if 2 \<le> length parts' then py_index parts' (- 2)
           else if parts' \<noteq> [] then py_index parts' 0 else Inr ''unknown''))
       else if ps \<noteq> [] then py_index ps 0 else Inr ''unknown'')"
    unfolding extract_main_part_def host ebind_Inr Let_def ps_def [symmetric] substack_test ..
  show ?thesis
  proof (cases "2 \<le> length ps")
    case False
    with ne show ?thesis
      unfolding start ps_def [symmetric] by (simp add: ebind_Inr py_index_0)
  next
    case True
    define qs where "qs = (if hd ps = ''www'' then tl ps else ps)"
    have qne: "qs \<noteq> []" using True by (cases ps) (auto simp: qs_def)
    have d: "(if hd ps = ''www'' then drop 1 ps else ps) = qs"
      by (simp add: qs_def drop_Suc)
    show ?thesis
      unfolding start ps_def [symmetric] Let_def
      using True ne
      apply (simp only: ebind_Inr py_index_0 [OF ne] d multi_part_test label_choice [OF qne]
          qs_def [symmetric])
      apply (simp add: py_index_m3)
      done
  qed
qed

lemma nth_mem_from_end: "0 < k \<Longrightarrow> k \<le> length xs \<Longrightarrow> xs ! (length xs - k) \<in> set xs"
  by simp

lemma extract_main_part_is_label:
  assumes host: "netloc url = Inr host"
  shows "\<exists>label \<in> set (split_on CHR ''.'' host). extract_main_part netloc url = Inr label"
proof -
  define ps where "ps = split_on CHR ''.'' host"
  define qs where "qs = (if hd ps = ''www'' then tl ps else ps)"
  have ne: "ps \<noteq> []" by (simp add: ps_def split_on_not_Nil)
  have sub: "set qs \<subseteq> set ps"
    using ne by (cases ps) (auto simp: qs_def)
  have qne: "2 \<le> length ps \<Longrightarrow> qs \<noteq> []" by (cases ps) (auto simp: qs_def)
  have m3: "3 \<le> length qs \<Longrightarrow> qs ! (length qs - 3) \<in> set ps"
    using sub nth_mem_from_end [of 3 qs] by auto
  have m2: "2 \<le> length qs \<Longrightarrow> qs ! (length qs - 2) \<in> set ps"
    using sub nth_mem_from_end [of 2 qs] by auto
  have m2': "2 \<le> length ps \<Longrightarrow> ps ! (length ps - 2) \<in> set ps"
    using nth_mem_from_end [of 2 ps] by auto
  have h: "2 \<le> length ps \<Longrightarrow> hd qs \<in> set ps"
    using sub qne by (cases qs) auto
  have h0: "hd ps \<in> set ps" using ne by simp
  show ?thesis
    unfolding extract_main_part_host [of netloc url host, OF host] Let_def ps_def [symmetric] qs_def [symmetric]
    using m3 m2 m2' h h0 by simp
qed

text \<open>
  When the network location is found, the result is always one of its dot-separated
  labels: \<open>split\<close> never returns the empty list, so the branch of the source that
  returns the default \<open>unknown\<close> is never taken.
\<close>

lemma extract_main_part_never_default:
  assumes "netloc url = Inr host"
  shows "\<exists>label \<in> set (split_on CHR ''.'' host). extract_main_part netloc url = Inr label"
  using assms by (rule extract_main_part_is_label)

text \<open>
  C10. The source at four URLs. For \<open>https://garymarcus.substack.com/\<close> it returns the
  subdomain, as its docstring says. A URL given without a scheme has an empty network
  location, and the result is the empty string, not \<open>unknown\<close>; so has the empty URL.
  With a port, the last label of the network location is not \<open>com\<close>, the substack test
  fails, and the result is \<open>substack\<close>, not the subdomain.
\<close>

theorem extract_main_part_empty_host:
  "extract_main_part url_netloc ''https://garymarcus.substack.com/'' = Inr ''garymarcus''
   \<and> url_netloc ''garymarcus.substack.com/'' = Inr []
   \<and> extract_main_part url_netloc ''garymarcus.substack.com/'' = Inr []
   \<and> extract_main_part url_netloc [] = Inr []
   \<and> url_netloc ''https://garymarcus.substack.com:443/'' = Inr ''garymarcus.substack.com:443''
   \<and> extract_main_part url_netloc ''https://garymarcus.substack.com:443/'' = Inr ''substack''"
  by (simp add: extract_main_part_def url_netloc_def after_scheme_def is_letter_def
      is_scheme_char_def ebind_def py_index_def second_level_labels_def Let_def)

section \<open>URL filtering\<close>

text \<open>
  C8. \<open>filter_urls\<close> keeps, in order, exactly the URLs in which no keyword occurs as a
  contiguous substring; with the default keywords, no URL containing \<open>archive\<close> survives.
  Nothing else is required of a URL for it to be kept.
\<close>

theorem filter_urls_excludes_keywords:
  "filter_urls urls keywords =
     filter (\<lambda>u. \<forall>k \<in> set keywords. \<not> (\<exists>before after. u = before @ k @ after)) urls
   \<and> (\<forall>before after. before @ ''archive'' @ after \<notin> set (filter_urls urls default_keywords))"
  by (auto simp: filter_urls_def list_all_iff sublist_def default_keywords_def intro: filter_cong)

theorem filter_urls_excludes_keywords_witness:
  "filter_urls [''https://x.substack.com/archive'', ''https://x.substack.com/p/my-essay'',
                ''https://x.substack.com/about'', ''https://x.substack.com/podcast'']
     default_keywords = [''https://x.substack.com/p/my-essay'']"
proof -
  have k: "\<forall>k \<in> set default_keywords.
      \<not> (\<exists>before after. ''https://x.substack.com/p/my-essay'' = before @ k @ after)"
    unfolding sublist_def [symmetric] default_keywords_def by (simp add: sublist_code(3))
  have a: "\<not> (\<forall>k \<in> set default_keywords.
      \<not> (\<exists>before after. ''https://x.substack.com/archive'' = before @ k @ after))"
    unfolding sublist_def [symmetric] default_keywords_def by (simp add: sublist_code(3))
  have b: "\<not> (\<forall>k \<in> set default_keywords.
      \<not> (\<exists>before after. ''https://x.substack.com/about'' = before @ k @ after))"
    unfolding sublist_def [symmetric] default_keywords_def by (simp add: sublist_code(3))
  have c: "\<not> (\<forall>k \<in> set default_keywords.
      \<not> (\<exists>before after. ''https://x.substack.com/podcast'' = before @ k @ after))"
    unfolding sublist_def [symmetric] default_keywords_def by (simp add: sublist_code(3))
  show ?thesis
    using filter_urls_excludes_keywords
      [of "[''https://x.substack.com/archive'', ''https://x.substack.com/p/my-essay'',
            ''https://x.substack.com/about'', ''https://x.substack.com/podcast'']"
          default_keywords] k a b c
    by (simp del: append.simps)
qed

section \<open>Extraction defaults\<close>





section \<open>Discovery\<close>

lemma filter_discovered_Some:
  "filter_discovered (map Some us) = Inr (filter_urls us default_keywords)"
proof -
  have "List.map_filter (\<lambda>u. u) (map Some us) = us"
    by (induction us) (simp_all add: List.map_filter_simps(1))
  moreover have "None \<notin> set (map Some us)" by auto
  ultimately show ?thesis by (simp add: filter_discovered_def)
qed

lemma example_post_kept:
  "filter_urls [''https://x.substack.com/p/a''] default_keywords = [''https://x.substack.com/p/a'']"
  by (simp add: filter_urls_def default_keywords_def sublist_code(3))

text \<open>
  C3 (amended). Discovery requests the sitemap first and each source at most once. On a
  non-success status of the sitemap it goes on to the feed, and its result is the
  filtered result of the feed; a non-success status at either source is the empty result
  for that source. A sitemap that answers with success and does not parse is not a
  fallback case: the parser's exception leaves discovery after the single sitemap request.
  Besides: the feed is requested exactly when the sitemap gives the empty list (so also
  for a sitemap without any \<open>loc\<close> element); when the sitemap gives URLs, they are
  filtered and the feed is not requested; and a feed that does not parse raises as well.
\<close>

theorem get_all_post_urls_fallback:
  "(fst (get_all_post_urls w base) = [base @ ''sitemap.xml'']
      \<or> fst (get_all_post_urls w base) = [base @ ''sitemap.xml'', base @ ''feed.xml''])
   \<and> (\<forall>resp. http_get w (base @ ''sitemap.xml'') = Inr resp \<and> \<not> resp_ok resp \<longrightarrow>
         fetch_urls_from_sitemap w base = ([base @ ''sitemap.xml''], Inr [])
         \<and> fst (get_all_post_urls w base) = [base @ ''sitemap.xml'', base @ ''feed.xml'']
         \<and> snd (get_all_post_urls w base) =
             (case snd (fetch_urls_from_feed w base) of
                Inl e \<Rightarrow> Inl e
              | Inr urls \<Rightarrow> Inr (filter_urls urls default_keywords)))
   \<and> (\<forall>resp. http_get w (base @ ''feed.xml'') = Inr resp \<and> \<not> resp_ok resp \<longrightarrow>
         fetch_urls_from_feed w base = ([base @ ''feed.xml''], Inr []))
   \<and> (\<forall>resp e. http_get w (base @ ''sitemap.xml'') = Inr resp \<and> resp_ok resp
          \<and> xml_fromstring w (resp_content resp) = Inl e \<longrightarrow>
         get_all_post_urls w base = ([base @ ''sitemap.xml''], Inl e))
   \<and> (snd (fetch_urls_from_sitemap w base) = Inr [] \<longrightarrow>
         fst (get_all_post_urls w base) = [base @ ''sitemap.xml'', base @ ''feed.xml'']
         \<and> snd (get_all_post_urls w base) =
             (case snd (fetch_urls_from_feed w base) of
                Inl e \<Rightarrow> Inl e
              | Inr urls \<Rightarrow> Inr (filter_urls urls default_keywords)))
   \<and> (\<forall>urls. snd (fetch_urls_from_sitemap w base) = Inr urls \<and> urls \<noteq> [] \<longrightarrow>
         get_all_post_urls w base = ([base @ ''sitemap.xml''], filter_discovered urls))
   \<and> (\<forall>resp e. snd (fetch_urls_from_sitemap w base) = Inr []
          \<and> http_get w (base @ ''feed.xml'') = Inr resp \<and> resp_ok resp
          \<and> xml_fromstring w (resp_content resp) = Inl e \<longrightarrow>
         get_all_post_urls w base = ([base @ ''sitemap.xml'', base @ ''feed.xml''], Inl e))"
proof -
  have s1: "fst (fetch_urls_from_sitemap w base) = [base @ ''sitemap.xml'']"
    by (simp add: fetch_urls_from_sitemap_def Let_def)
  have f1: "fst (fetch_urls_from_feed w base) = [base @ ''feed.xml'']"
    by (simp add: fetch_urls_from_feed_def Let_def)
  have empty: "fst (get_all_post_urls w base) = [base @ ''sitemap.xml'', base @ ''feed.xml'']
         \<and> snd (get_all_post_urls w base) =
             (case snd (fetch_urls_from_feed w base) of
                Inl e \<Rightarrow> Inl e
              | Inr urls \<Rightarrow> Inr (filter_urls urls default_keywords))"
    if "snd (fetch_urls_from_sitemap w base) = Inr []"
  proof -
    from that s1 have s: "fetch_urls_from_sitemap w base = ([base @ ''sitemap.xml''], Inr [])"
      by (simp add: prod_eq_iff)
    show ?thesis
      using f1 by (cases "fetch_urls_from_feed w base")
        (simp add: get_all_post_urls_def s filter_discovered_Some split: sum.splits)
  qed
  have nonok: "fetch_urls_from_sitemap w base = ([base @ ''sitemap.xml''], Inr [])"
    if "http_get w (base @ ''sitemap.xml'') = Inr resp \<and> \<not> resp_ok resp" for resp
    using that by (simp add: fetch_urls_from_sitemap_def)
  have c1: "fst (get_all_post_urls w base) = [base @ ''sitemap.xml'']
      \<or> fst (get_all_post_urls w base) = [base @ ''sitemap.xml'', base @ ''feed.xml'']"
    by (simp add: get_all_post_urls_def fetch_urls_from_sitemap_def fetch_urls_from_feed_def
        Let_def split: sum.splits)
  have c2: "\<forall>resp. http_get w (base @ ''sitemap.xml'') = Inr resp \<and> \<not> resp_ok resp \<longrightarrow>
         fetch_urls_from_sitemap w base = ([base @ ''sitemap.xml''], Inr [])
         \<and> fst (get_all_post_urls w base) = [base @ ''sitemap.xml'', base @ ''feed.xml'']
         \<and> snd (get_all_post_urls w base) =
             (case snd (fetch_urls_from_feed w base) of
                Inl e \<Rightarrow> Inl e
              | Inr urls \<Rightarrow> Inr (filter_urls urls default_keywords))"
    using nonok empty by (metis snd_conv)
  have c3: "\<forall>resp. http_get w (base @ ''feed.xml'') = Inr resp \<and> \<not> resp_ok resp \<longrightarrow>
         fetch_urls_from_feed w base = ([base @ ''feed.xml''], Inr [])"
    by (simp add: fetch_urls_from_feed_def)
  have c4: "\<forall>resp e. http_get w (base @ ''sitemap.xml'') = Inr resp \<and> resp_ok resp
          \<and> xml_fromstring w (resp_content resp) = Inl e \<longrightarrow>
         get_all_post_urls w base = ([base @ ''sitemap.xml''], Inl e)"
    by (simp add: get_all_post_urls_def fetch_urls_from_sitemap_def)
  have c6: "\<forall>urls. snd (fetch_urls_from_sitemap w base) = Inr urls \<and> urls \<noteq> [] \<longrightarrow>
         get_all_post_urls w base = ([base @ ''sitemap.xml''], filter_discovered urls)"
  proof (intro allI impI)
    fix urls
    assume a: "snd (fetch_urls_from_sitemap w base) = Inr urls \<and> urls \<noteq> []"
    with s1 have "fetch_urls_from_sitemap w base = ([base @ ''sitemap.xml''], Inr urls)"
      by (simp add: prod_eq_iff)
    with a show "get_all_post_urls w base = ([base @ ''sitemap.xml''], filter_discovered urls)"
      by (simp add: get_all_post_urls_def)
  qed
  have c7: "\<forall>resp e. snd (fetch_urls_from_sitemap w base) = Inr []
          \<and> http_get w (base @ ''feed.xml'') = Inr resp \<and> resp_ok resp
          \<and> xml_fromstring w (resp_content resp) = Inl e \<longrightarrow>
         get_all_post_urls w base = ([base @ ''sitemap.xml'', base @ ''feed.xml''], Inl e)"
  proof (intro allI impI)
    fix resp e
    assume a: "snd (fetch_urls_from_sitemap w base) = Inr []
          \<and> http_get w (base @ ''feed.xml'') = Inr resp \<and> resp_ok resp
          \<and> xml_fromstring w (resp_content resp) = Inl e"
    then have "snd (fetch_urls_from_feed w base) = Inl e"
      by (simp add: fetch_urls_from_feed_def)
    with empty a show
      "get_all_post_urls w base = ([base @ ''sitemap.xml'', base @ ''feed.xml''], Inl e)"
      by (simp add: prod_eq_iff)
  qed
  from c1 c2 c3 c4 empty c6 c7 show ?thesis by blast
qed

theorem get_all_post_urls_fallback_witness:
  "get_all_post_urls sitemap_404_site ''https://x.substack.com/''
     = ([''https://x.substack.com/sitemap.xml'', ''https://x.substack.com/feed.xml''],
        Inr [''https://x.substack.com/p/a''])"
proof -
  have feed: "fetch_urls_from_feed sitemap_404_site ''https://x.substack.com/''
      = ([''https://x.substack.com/feed.xml''], Inr [''https://x.substack.com/p/a''])"
    by (simp add: fetch_urls_from_feed_def sitemap_404_site_def example_parser_def
        example_feed_tree_def findall_items_def find_link_def)
  have get: "http_get sitemap_404_site (''https://x.substack.com/'' @ ''sitemap.xml'')
      = Inr \<lparr> resp_ok = False, resp_status_code = 404, resp_content = ''Not Found'' \<rparr>
      \<and> \<not> resp_ok \<lparr> resp_ok = False, resp_status_code = 404, resp_content = ''Not Found'' \<rparr>"
    by (simp add: sitemap_404_site_def)
  show ?thesis
    using get_all_post_urls_fallback [of sitemap_404_site "''https://x.substack.com/''",
        THEN conjunct2, THEN conjunct1] get
    by (simp add: feed example_post_kept prod_eq_iff)
qed

text \<open>
  C3 as stated fails on a parse failure: the sitemap of this site answers 200 with a
  document that does not parse, its feed holds one post, and discovery ends in the
  parser's exception after the sitemap request alone.
\<close>

theorem get_all_post_urls_parse_failure_counterexample:
  "get_all_post_urls sitemap_malformed_site ''https://x.substack.com/''
     = ([''https://x.substack.com/sitemap.xml''], Inl ParseError)
   \<and> fetch_urls_from_feed sitemap_malformed_site ''https://x.substack.com/''
     = ([''https://x.substack.com/feed.xml''], Inr [''https://x.substack.com/p/a''])"
  by (simp add: get_all_post_urls_def fetch_urls_from_sitemap_def fetch_urls_from_feed_def
      sitemap_malformed_site_def example_parser_def example_feed_def
      example_feed_tree_def findall_items_def find_link_def)

section \<open>Index merge\<close>

lemma count_list_filter_eq:
  "count_list (filter P xs) d = (if P d then count_list xs d else 0)"
  by (induction xs) auto

text \<open>
  C5. When the index file can be written, \<open>save_essays_data_to_json\<close> writes a merged
  list: the new records alone when there is no index yet; otherwise the existing records,
  unchanged and first, followed by those new records that are equal to no existing record.
  So every existing record keeps its number of occurrences, and a record that is not in
  the existing index occurs as often as in the new batch.
\<close>

theorem save_essays_data_to_json_merge:
  assumes "\<not> write_fails sc (json_path sc)"
  shows "\<exists>merged. save_essays_data_to_json sc new st = Inr (st\<lparr>index_json := Some merged\<rparr>)
     \<and> (index_json st = None \<longrightarrow> merged = new)
     \<and> (\<forall>existing. index_json st = Some existing \<longrightarrow>
          merged = existing @ filter (\<lambda>d. d \<notin> set existing) new
        \<and> take (length existing) merged = existing
        \<and> set merged = set existing \<union> set new
        \<and> (\<forall>d \<in> set existing. count_list merged d = count_list existing d)
        \<and> (\<forall>d. d \<notin> set existing \<longrightarrow> count_list merged d = count_list new d))"
proof (cases "index_json st")
  case None
  with assms show ?thesis by (simp add: save_essays_data_to_json_def)
next
  case (Some existing)
  let ?m = "existing @ filter (\<lambda>d. d \<notin> set existing) new"
  have "save_essays_data_to_json sc new st = Inr (st\<lparr>index_json := Some ?m\<rparr>)"
    using assms Some by (simp add: save_essays_data_to_json_def)
  moreover have "set ?m = set existing \<union> set new" by auto
  moreover have "\<forall>d \<in> set existing. count_list ?m d = count_list existing d"
    by (simp add: count_list_filter_eq)
  moreover have "\<forall>d. d \<notin> set existing \<longrightarrow> count_list ?m d = count_list new d"
    by (simp add: count_list_filter_eq)
  ultimately show ?thesis using Some by simp
qed

theorem save_essays_data_to_json_merge_witness:
  "save_essays_data_to_json (example_scraper [])
       [example_record ''one'', example_record ''two'']
       (empty_site\<lparr>index_json := Some [example_record ''one'']\<rparr>)
     = Inr (empty_site\<lparr>index_json := Some [example_record ''one'', example_record ''two'']\<rparr>)"
proof -
  have w: "\<not> write_fails (example_scraper []) (json_path (example_scraper []))"
    by (simp add: example_scraper_def)
  have ne: "example_record ''two'' \<noteq> example_record ''one''"
    by (simp add: example_record_def)
  show ?thesis
    using save_essays_data_to_json_merge [OF w,
        of "[example_record ''one'', example_record ''two'']"
           "empty_site\<lparr>index_json := Some [example_record ''one'']\<rparr>"] ne
    by auto
qed

section \<open>The authenticated fetch\<close>

lemma wait_until_timeout:
  "(\<forall>k. tick \<le> k \<and> k < tick + polls \<longrightarrow> cond k = Inr False)
     \<Longrightarrow> wait_until polls cond tick = (tick + polls, Some TimeoutException)"
  by (induction polls arbitrary: tick) auto

lemma wait_until_found:
  "k < polls \<Longrightarrow> (\<forall>j. tick \<le> j \<and> j < tick + k \<longrightarrow> cond j = Inr False)
     \<Longrightarrow> cond (tick + k) = Inr True
     \<Longrightarrow> wait_until polls cond tick = (tick + k, None)"
proof (induction polls arbitrary: tick k)
  case 0
  then show ?case by simp
next
  case (Suc polls)
  show ?case
  proof (cases k)
    case 0
    with Suc.prems show ?thesis by simp
  next
    case (Suc k')
    have first: "cond tick = Inr False" using Suc.prems(2) Suc by simp
    have "wait_until polls cond (Suc tick) = (Suc tick + k', None)"
    proof (rule Suc.IH)
      show "k' < polls" using Suc.prems(1) Suc by simp
      show "\<forall>j. Suc tick \<le> j \<and> j < Suc tick + k' \<longrightarrow> cond j = Inr False"
        using Suc.prems(2) Suc by simp
      show "cond (Suc tick + k') = Inr True" using Suc.prems(3) Suc by simp
    qed
    with first Suc show ?thesis by simp
  qed
qed

lemma premium_get_url_soup_at_tick:
  assumes "navigate driver url = Inr view"
    and "(case wait_until (wait_polls driver) (\<lambda>k. poll (view k)) 0 of
            (k, Some e) \<Rightarrow> k
          | (k, None) \<Rightarrow> if has_loading_indicator (view k) then k + 2 else k) = tick"
    and "page_source (view tick) = Inr html" and "parse_html html = Inr doc"
  shows "PremiumSubstackScraper_get_url_soup driver parse_html url = Inr (Some doc)"
  using assms by (simp add: PremiumSubstackScraper_get_url_soup_def Let_def)

text \<open>
  C7 (amended). The authenticated fetch polls for the readiness markers a bounded number
  of times. If no marker appears at any poll, the timeout is caught inside the method, and
  the fetch returns content all the same: the page source of that moment, parsed. When a
  marker appears at some poll, the content is the page source of that poll (one second
  later if a loading indicator is found). The method never returns \<open>None\<close> and never
  raises the timeout; what it raises is a ValueError chained to an exception of the driver
  or of the parser.
\<close>

theorem premium_get_url_soup_timeout_returns_content:
  "(\<forall>view html doc.
       navigate driver url = Inr view
       \<and> (\<forall>k < wait_polls driver. poll (view k) = Inr False)
       \<and> page_source (view (wait_polls driver)) = Inr html \<and> parse_html html = Inr doc
      \<longrightarrow> PremiumSubstackScraper_get_url_soup driver parse_html url = Inr (Some doc))
   \<and> (\<forall>view k html doc.
       navigate driver url = Inr view \<and> k < wait_polls driver
       \<and> (\<forall>j < k. poll (view j) = Inr False) \<and> poll (view k) = Inr True
       \<and> page_source (view (if has_loading_indicator (view k) then k + 2 else k)) = Inr html
       \<and> parse_html html = Inr doc
      \<longrightarrow> PremiumSubstackScraper_get_url_soup driver parse_html url = Inr (Some doc))
   \<and> PremiumSubstackScraper_get_url_soup driver parse_html url \<noteq> Inr None
   \<and> PremiumSubstackScraper_get_url_soup driver parse_html url \<noteq> Inl TimeoutException
   \<and> (\<forall>e. PremiumSubstackScraper_get_url_soup driver parse_html url = Inl e
         \<longrightarrow> (\<exists>cause. e = ValueErrorFrom ''Error fetching page: '' cause))"
proof (intro conjI allI impI)
  fix view html doc
  assume a: "navigate driver url = Inr view
       \<and> (\<forall>k < wait_polls driver. poll (view k) = Inr False)
       \<and> page_source (view (wait_polls driver)) = Inr html \<and> parse_html html = Inr doc"
  then have "wait_until (wait_polls driver) (\<lambda>k. poll (view k)) 0
      = (0 + wait_polls driver, Some TimeoutException)"
    by (intro wait_until_timeout) simp
  with a show "PremiumSubstackScraper_get_url_soup driver parse_html url = Inr (Some doc)"
    by (intro premium_get_url_soup_at_tick [where view = view and html = html
          and tick = "wait_polls driver"]) simp_all
next
  fix view k html doc
  assume a: "navigate driver url = Inr view \<and> k < wait_polls driver
       \<and> (\<forall>j < k. poll (view j) = Inr False) \<and> poll (view k) = Inr True
       \<and> page_source (view (if has_loading_indicator (view k) then k + 2 else k)) = Inr html
       \<and> parse_html html = Inr doc"
  then have "wait_until (wait_polls driver) (\<lambda>k. poll (view k)) 0 = (0 + k, None)"
    by (intro wait_until_found) simp_all
  with a show "PremiumSubstackScraper_get_url_soup driver parse_html url = Inr (Some doc)"
    by (intro premium_get_url_soup_at_tick [where view = view and html = html
          and tick = "if has_loading_indicator (view k) then k + 2 else k"]) simp_all
next
  show "PremiumSubstackScraper_get_url_soup driver parse_html url \<noteq> Inr None"
    by (simp add: PremiumSubstackScraper_get_url_soup_def Let_def split: sum.splits)
next
  show "PremiumSubstackScraper_get_url_soup driver parse_html url \<noteq> Inl TimeoutException"
    by (simp add: PremiumSubstackScraper_get_url_soup_def Let_def split: sum.splits)
next
  fix e
  assume "PremiumSubstackScraper_get_url_soup driver parse_html url = Inl e"
  then show "\<exists>cause. e = ValueErrorFrom ''Error fetching page: '' cause"
    by (auto simp: PremiumSubstackScraper_get_url_soup_def Let_def split: sum.splits)
qed

theorem premium_get_url_soup_timeout_returns_content_witness:
  "PremiumSubstackScraper_get_url_soup stalled_browser example_page_parser
       ''https://x.substack.com/p/a'' = Inr (Some empty_soup)
   \<and> PremiumSubstackScraper_get_url_soup loading_browser example_page_parser
       ''https://x.substack.com/p/a'' = Inr (Some titled_soup)"
proof -
  have stalled: "navigate stalled_browser ''https://x.substack.com/p/a'' = Inr stalled_view
      \<and> (\<forall>k < wait_polls stalled_browser. poll (stalled_view k) = Inr False)
      \<and> page_source (stalled_view (wait_polls stalled_browser))
          = Inr ''<html><body></body></html>''
      \<and> example_page_parser ''<html><body></body></html>'' = Inr empty_soup"
    by (simp add: stalled_browser_def stalled_view_def ready_def poll_def
        example_page_parser_def)
  have loading: "navigate loading_browser ''https://x.substack.com/p/a'' = Inr loading_view
      \<and> 2 < wait_polls loading_browser
      \<and> (\<forall>j < 2. poll (loading_view j) = Inr False) \<and> poll (loading_view 2) = Inr True
      \<and> page_source (loading_view (if has_loading_indicator (loading_view 2) then 2 + 2 else 2))
          = Inr ''<h1>Post</h1>''
      \<and> example_page_parser ''<h1>Post</h1>'' = Inr titled_soup"
    by (simp add: loading_browser_def loading_view_def ready_def poll_def
        example_page_parser_def)
  from premium_get_url_soup_timeout_returns_content
      [of stalled_browser "''https://x.substack.com/p/a''" example_page_parser,
        THEN conjunct1, rule_format, OF stalled]
    premium_get_url_soup_timeout_returns_content
      [of loading_browser "''https://x.substack.com/p/a''" example_page_parser,
        THEN conjunct2, THEN conjunct1, rule_format, OF loading]
  show ?thesis by simp
qed

text \<open>
  C7 as stated fails: on a page where no marker ever appears the wait times out, and the
  fetch returns a parsed document, not a timeout outcome and not \<open>None\<close>.
\<close>

theorem premium_get_url_soup_timeout_counterexample:
  "wait_until (wait_polls stalled_browser) (poll \<circ> stalled_view) 0
     = (11, Some TimeoutException)
   \<and> PremiumSubstackScraper_get_url_soup stalled_browser example_page_parser
       ''https://x.substack.com/p/a''
     = Inr (Some empty_soup)"
  by (simp add: PremiumSubstackScraper_get_url_soup_def stalled_browser_def
      example_page_parser_def stalled_view_def ready_def poll_def eval_nat_numeral)

section \<open>The login wait\<close>

lemma challenge_wait_pending:
  "still_pending py (view (clock + 10))
     \<Longrightarrow> challenge_wait py view (i # rest) clock = challenge_wait py view rest (clock + 10)"
  by (auto simp: still_pending_def Let_def split: sum.splits list.splits)

lemma challenge_wait_leaves:
  "current_url (view (clock + 10)) = Inr u \<Longrightarrow> \<not> sublist sign_in_surface u
     \<Longrightarrow> challenge_wait py view (i # rest) clock = (clock + 10, Returned)"
  by (simp add: Let_def)

lemma challenge_wait_breaks:
  "current_url (view (clock + 10)) = Inr u \<Longrightarrow> sublist sign_in_surface u
     \<Longrightarrow> error_containers (view (clock + 10)) = Inr ((True, e) # others)
     \<Longrightarrow> \<not> sublist ''captcha'' (str_lower py e)
     \<Longrightarrow> challenge_wait py view (i # rest) clock = (clock + 10, Left_loop)"
  by (simp add: Let_def)

lemma challenge_wait_skip:
  "n \<le> length rounds
     \<Longrightarrow> (\<forall>j. 1 \<le> j \<and> j \<le> n \<longrightarrow> still_pending py (view (clock + 10 * j)))
     \<Longrightarrow> challenge_wait py view rounds clock
           = challenge_wait py view (drop n rounds) (clock + 10 * n)"
proof (induction n arbitrary: rounds clock)
  case 0
  then show ?case by simp
next
  case (Suc n)
  then obtain i rest where r: "rounds = i # rest" by (cases rounds) auto
  have "still_pending py (view (clock + 10 * 1))"
    using Suc.prems(2) by (intro Suc.prems(2) [rule_format]) simp
  then have sp: "still_pending py (view (clock + 10))" by simp
  have first: "challenge_wait py view (i # rest) clock
      = challenge_wait py view rest (clock + 10)"
    using sp by (rule challenge_wait_pending)
  have "challenge_wait py view rest (clock + 10)
      = challenge_wait py view (drop n rest) (clock + 10 + 10 * n)"
  proof (rule Suc.IH)
    show "n \<le> length rest" using Suc.prems(1) r by simp
    show "\<forall>j. 1 \<le> j \<and> j \<le> n \<longrightarrow> still_pending py (view (clock + 10 + 10 * j))"
    proof (intro allI impI)
      fix j assume "1 \<le> j \<and> j \<le> n"
      then have "still_pending py (view (clock + 10 * Suc j))"
        by (intro Suc.prems(2) [rule_format]) simp
      then show "still_pending py (view (clock + 10 + 10 * j))" by (simp add: add.assoc)
    qed
  qed
  with first r show ?case by (simp only: drop_Suc_Cons mult_Suc_right add.assoc [symmetric])
qed

lemma challenge_wait_Cons_cases:
  "(challenge_wait py view (i # rest) clock = (clock + 10, Returned)
      \<and> (\<exists>u. current_url (view (clock + 10)) = Inr u \<and> \<not> sublist sign_in_surface u))
   \<or> challenge_wait py view (i # rest) clock = (clock + 10, Left_loop)
   \<or> (\<exists>x. challenge_wait py view (i # rest) clock = (clock + 10, Raised x))
   \<or> challenge_wait py view (i # rest) clock = challenge_wait py view rest (clock + 10)"
  by (simp add: Let_def split: sum.splits list.splits)

lemma challenge_wait_bound:
  "challenge_wait py view rounds clock = (c, ending) \<Longrightarrow>
     c \<le> clock + 10 * length rounds \<and> (\<exists>k. c = clock + 10 * k)
     \<and> (ending = Returned
          \<longrightarrow> (\<exists>u. current_url (view c) = Inr u \<and> \<not> sublist sign_in_surface u))"
proof (induction rounds arbitrary: clock)
  case Nil
  then show ?case by simp
next
  case (Cons i rest)
  consider
    (ret) "challenge_wait py view (i # rest) clock = (clock + 10, Returned)"
      "\<exists>u. current_url (view (clock + 10)) = Inr u \<and> \<not> sublist sign_in_surface u"
    | (brk) "challenge_wait py view (i # rest) clock = (clock + 10, Left_loop)"
    | (exc) x where "challenge_wait py view (i # rest) clock = (clock + 10, Raised x)"
    | (go) "challenge_wait py view (i # rest) clock = challenge_wait py view rest (clock + 10)"
    using challenge_wait_Cons_cases [of py view i rest clock] by blast
  then show ?case
  proof cases
    case ret
    with Cons.prems have c: "c = clock + 10 * 1" and "ending = Returned" by simp_all
    from c have "\<exists>k. c = clock + 10 * k" ..
    with c ret(2) show ?thesis by simp
  next
    case brk
    with Cons.prems have c: "c = clock + 10 * 1" and e: "ending = Left_loop" by simp_all
    from c have "\<exists>k. c = clock + 10 * k" ..
    with c e show ?thesis by simp
  next
    case exc
    with Cons.prems have c: "c = clock + 10 * 1" and e: "ending = Raised x" by simp_all
    from c have "\<exists>k. c = clock + 10 * k" ..
    with c e show ?thesis by simp
  next
    case go
    with Cons.prems have a: "challenge_wait py view rest (clock + 10) = (c, ending)" by simp
    from Cons.IH [OF a] obtain k where
      b: "c \<le> clock + 10 + 10 * length rest" and k: "c = clock + 10 + 10 * k"
      and r: "ending = Returned
          \<longrightarrow> (\<exists>u. current_url (view c) = Inr u \<and> \<not> sublist sign_in_surface u)"
      by auto
    from k have "c = clock + 10 * (Suc k)" by simp
    then have "\<exists>k. c = clock + 10 * k" ..
    moreover from b have "c \<le> clock + 10 * length (i # rest)" by simp
    ultimately show ?thesis using r by simp
  qed
qed

lemma challenge_wait_answers:
  "challenge_wait py view rounds clock = (c, Raised x) \<Longrightarrow>
     \<exists>t. clock < t \<and> t \<le> clock + 10 * length rounds
       \<and> (current_url (view t) = Inl x \<or> error_containers (view t) = Inl x)"
proof (induction rounds arbitrary: clock)
  case Nil
  then show ?case by simp
next
  case (Cons i rest)
  show ?case
  proof (cases "challenge_wait py view (i # rest) clock
      = challenge_wait py view rest (clock + 10)")
    case True
    with Cons.prems have "challenge_wait py view rest (clock + 10) = (c, Raised x)" by simp
    from Cons.IH [OF this] obtain t where
      "clock + 10 < t" "t \<le> clock + 10 + 10 * length rest"
      "current_url (view t) = Inl x \<or> error_containers (view t) = Inl x" by blast
    then show ?thesis by (intro exI [of _ t]) simp
  next
    case False
    with Cons.prems have
      "current_url (view (clock + 10)) = Inl x \<or> error_containers (view (clock + 10)) = Inl x"
      by (auto simp: Let_def split: sum.splits list.splits if_splits)
    then show ?thesis by (intro exI [of _ "clock + 10"]) simp
  qed
qed

lemma final_check_pending:
  "still_pending py v \<Longrightarrow> final_check py v = Inl (ValueError login_failed_message)"
  by (auto simp: final_check_def is_login_failed_def still_pending_def ebind_def
      split: sum.splits list.splits)

lemma final_check_answers:
  "current_url v = Inr u \<Longrightarrow> sublist sign_in_surface u \<Longrightarrow> error_containers v = Inr cs
     \<Longrightarrow> final_check py v = Inl (ValueError login_failed_message)"
  by (auto simp: final_check_def is_login_failed_def ebind_def split: list.splits)

lemma final_check_on_sign_in:
  "(\<forall>u. current_url v = Inr u \<longrightarrow> sublist sign_in_surface u)
     \<Longrightarrow> \<exists>e. final_check py v = Inl e"
  by (auto simp: final_check_def is_login_failed_def ebind_def split: sum.splits list.splits)

lemma login_after_wait:
  assumes "open_sign_in s = None" and "credential_steps s = None"
    and "challenge_wait py (view_at s) countdown 0 = (c, ending)"
  shows "login py s =
     (case ending of
        Returned \<Rightarrow> (c, Inr ())
      | Left_loop \<Rightarrow> (c, final_check py (view_at s c))
      | Raised x \<Rightarrow> (c + 10, final_check py (view_at s (c + 10))))"
  using assms by (simp add: login_def Let_def split: wait_end.splits)

lemma login_after_credential_error:
  assumes "open_sign_in s = None" and "credential_steps s = Some x"
  shows "login py s = (10, final_check py (view_at s 10))"
  using assms by (simp add: login_def Let_def)

lemma length_countdown: "length countdown = 12"
  by (simp add: countdown_def)

lemma challenge_wait_reaches_look:
  assumes k: "1 \<le> k" "k \<le> 12"
    and pending: "\<forall>j. 1 \<le> j \<and> j < k \<longrightarrow> still_pending py (view (10 * j))"
  shows "\<exists>i rest. challenge_wait py view countdown 0
           = challenge_wait py view (i # rest) (10 * k - 10)"
proof -
  have "challenge_wait py view countdown 0
      = challenge_wait py view (drop (k - 1) countdown) (0 + 10 * (k - 1))"
  proof (rule challenge_wait_skip)
    show "k - 1 \<le> length countdown" using k by (simp add: length_countdown)
    show "\<forall>j. 1 \<le> j \<and> j \<le> k - 1 \<longrightarrow> still_pending py (view (0 + 10 * j))"
      using pending k by auto
  qed
  moreover have "drop (k - 1) countdown \<noteq> []" using k by (simp add: length_countdown)
  then obtain i rest where "drop (k - 1) countdown = i # rest"
    by (cases "drop (k - 1) countdown") auto
  moreover have "0 + 10 * (k - 1) = 10 * k - 10" using k by simp
  ultimately show ?thesis by metis
qed

lemma login_returns_at_look:
  assumes "open_sign_in s = None" and "credential_steps s = None"
    and k: "1 \<le> k" "k \<le> 12"
    and pending: "\<forall>j. 1 \<le> j \<and> j < k \<longrightarrow> still_pending py (view_at s (10 * j))"
    and left: "current_url (view_at s (10 * k)) = Inr u" "\<not> sublist sign_in_surface u"
  shows "login py s = (10 * k, Inr ())"
proof -
  from challenge_wait_reaches_look [OF k pending] obtain i rest where
    r: "challenge_wait py (view_at s) countdown 0
        = challenge_wait py (view_at s) (i # rest) (10 * k - 10)" by blast
  have t: "10 * k - 10 + 10 = 10 * k" using k by simp
  have "challenge_wait py (view_at s) (i # rest) (10 * k - 10) = (10 * k - 10 + 10, Returned)"
    using left by (intro challenge_wait_leaves [where u = u]) (simp_all add: t)
  with r t have "challenge_wait py (view_at s) countdown 0 = (10 * k, Returned)" by simp
  from login_after_wait [OF assms(1,2) this] show ?thesis by simp
qed

lemma login_breaks_at_look:
  assumes "open_sign_in s = None" and "credential_steps s = None"
    and k: "1 \<le> k" "k \<le> 12"
    and pending: "\<forall>j. 1 \<le> j \<and> j < k \<longrightarrow> still_pending py (view_at s (10 * j))"
    and here: "current_url (view_at s (10 * k)) = Inr u" "sublist sign_in_surface u"
      "error_containers (view_at s (10 * k)) = Inr ((True, e) # others)"
      "\<not> sublist ''captcha'' (str_lower py e)"
  shows "login py s = (10 * k, Inl (ValueError login_failed_message))"
proof -
  from challenge_wait_reaches_look [OF k pending] obtain i rest where
    r: "challenge_wait py (view_at s) countdown 0
        = challenge_wait py (view_at s) (i # rest) (10 * k - 10)" by blast
  have t: "10 * k - 10 + 10 = 10 * k" using k by simp
  have "challenge_wait py (view_at s) (i # rest) (10 * k - 10) = (10 * k - 10 + 10, Left_loop)"
    using here
    by (intro challenge_wait_breaks [where u = u and e = e and others = others])
      (simp_all add: t)
  with r t have "challenge_wait py (view_at s) countdown 0 = (10 * k, Left_loop)" by simp
  from login_after_wait [OF assms(1,2) this] final_check_answers [OF here(1,2,3)]
  show ?thesis by simp
qed

lemma login_exhausts:
  assumes "open_sign_in s = None" and "credential_steps s = None"
    and pending: "\<forall>j. 1 \<le> j \<and> j \<le> 12 \<longrightarrow> still_pending py (view_at s (10 * j))"
  shows "login py s = (120, Inl (ValueError login_failed_message))"
proof -
  have "challenge_wait py (view_at s) countdown 0
      = challenge_wait py (view_at s) (drop 12 countdown) (0 + 10 * 12)"
  proof (rule challenge_wait_skip)
    show "12 \<le> length countdown" by (simp add: length_countdown)
    show "\<forall>j. 1 \<le> j \<and> j \<le> 12 \<longrightarrow> still_pending py (view_at s (0 + 10 * j))"
      using pending by simp
  qed
  then have w: "challenge_wait py (view_at s) countdown 0 = (120, Left_loop)"
    by (simp add: countdown_def)
  have "still_pending py (view_at s (10 * 12))"
    by (intro pending [rule_format]) simp
  then have "final_check py (view_at s 120) = Inl (ValueError login_failed_message)"
    by (simp add: final_check_pending)
  with login_after_wait [OF assms(1,2) w] show ?thesis by simp
qed

text \<open>
  C6 (amended). Once the sign-in page has been opened, \<open>login\<close> sleeps a whole number of
  10-second rounds and looks at the page after each. It returns from the wait at the
  first look that finds the current URL without the text \<open>substack.com/sign-in\<close>: at
  the \<open>k\<close>-th look, after \<open>10 * k\<close> seconds, when the looks before it found the
  challenge pending. A displayed error that is not about the challenge ends the wait at
  that look with the ValueError that lists the possible causes; so does the end of the
  twelve rounds, after 120 seconds. \<open>login\<close> never returns while every URL it can read
  contains that text: it raises. When every look answers, it raises that ValueError
  within 120 seconds; an exception of a look costs one more sleep of 10 seconds, so 130
  seconds bound the wait in every case.
\<close>

theorem login_budget:
  assumes "open_sign_in s = None"
  shows "fst (login py s) \<le> 130 \<and> (\<exists>k. fst (login py s) = 10 * k)
    \<and> (\<forall>k. 1 \<le> k \<and> k \<le> 12 \<and> credential_steps s = None
          \<and> (\<forall>j. 1 \<le> j \<and> j < k \<longrightarrow> still_pending py (view_at s (10 * j)))
          \<and> (\<exists>u. current_url (view_at s (10 * k)) = Inr u \<and> \<not> sublist sign_in_surface u)
         \<longrightarrow> login py s = (10 * k, Inr ()))
    \<and> (\<forall>k u e others. 1 \<le> k \<and> k \<le> 12 \<and> credential_steps s = None
          \<and> (\<forall>j. 1 \<le> j \<and> j < k \<longrightarrow> still_pending py (view_at s (10 * j)))
          \<and> current_url (view_at s (10 * k)) = Inr u \<and> sublist sign_in_surface u
          \<and> error_containers (view_at s (10 * k)) = Inr ((True, e) # others)
          \<and> \<not> sublist ''captcha'' (str_lower py e)
         \<longrightarrow> login py s = (10 * k, Inl (ValueError login_failed_message)))
    \<and> (credential_steps s = None
          \<and> (\<forall>j. 1 \<le> j \<and> j \<le> 12 \<longrightarrow> still_pending py (view_at s (10 * j)))
         \<longrightarrow> login py s = (120, Inl (ValueError login_failed_message)))
    \<and> ((\<forall>t \<le> 130. \<forall>u. current_url (view_at s t) = Inr u \<longrightarrow> sublist sign_in_surface u)
         \<longrightarrow> (\<exists>e. snd (login py s) = Inl e))
    \<and> ((\<forall>t \<le> 120. (\<exists>u. current_url (view_at s t) = Inr u \<and> sublist sign_in_surface u)
                   \<and> (\<exists>cs. error_containers (view_at s t) = Inr cs))
         \<longrightarrow> fst (login py s) \<le> 120
             \<and> snd (login py s) = Inl (ValueError login_failed_message))"
proof -
  have looks: "\<forall>k. 1 \<le> k \<and> k \<le> 12 \<and> credential_steps s = None
          \<and> (\<forall>j. 1 \<le> j \<and> j < k \<longrightarrow> still_pending py (view_at s (10 * j)))
          \<and> (\<exists>u. current_url (view_at s (10 * k)) = Inr u \<and> \<not> sublist sign_in_surface u)
         \<longrightarrow> login py s = (10 * k, Inr ())"
    using login_returns_at_look [OF assms] by blast
  have breaks: "\<forall>k u e others. 1 \<le> k \<and> k \<le> 12 \<and> credential_steps s = None
          \<and> (\<forall>j. 1 \<le> j \<and> j < k \<longrightarrow> still_pending py (view_at s (10 * j)))
          \<and> current_url (view_at s (10 * k)) = Inr u \<and> sublist sign_in_surface u
          \<and> error_containers (view_at s (10 * k)) = Inr ((True, e) # others)
          \<and> \<not> sublist ''captcha'' (str_lower py e)
         \<longrightarrow> login py s = (10 * k, Inl (ValueError login_failed_message))"
    using login_breaks_at_look [OF assms] by blast
  have exhausts: "credential_steps s = None
          \<and> (\<forall>j. 1 \<le> j \<and> j \<le> 12 \<longrightarrow> still_pending py (view_at s (10 * j)))
         \<longrightarrow> login py s = (120, Inl (ValueError login_failed_message))"
    using login_exhausts [OF assms] by blast
  have rest: "fst (login py s) \<le> 130 \<and> (\<exists>k. fst (login py s) = 10 * k)
    \<and> ((\<forall>t \<le> 130. \<forall>u. current_url (view_at s t) = Inr u \<longrightarrow> sublist sign_in_surface u)
         \<longrightarrow> (\<exists>e. snd (login py s) = Inl e))
    \<and> ((\<forall>t \<le> 120. (\<exists>u. current_url (view_at s t) = Inr u \<and> sublist sign_in_surface u)
                   \<and> (\<exists>cs. error_containers (view_at s t) = Inr cs))
         \<longrightarrow> fst (login py s) \<le> 120
             \<and> snd (login py s) = Inl (ValueError login_failed_message))"
  proof (cases "credential_steps s")
    case (Some x)
    note l = login_after_credential_error [OF assms Some, of py]
    have a: "fst (login py s) \<le> 130 \<and> (\<exists>k. fst (login py s) = 10 * k)"
      unfolding l by (auto intro: exI [of _ 1])
    have d: "(\<forall>t \<le> 130. \<forall>u. current_url (view_at s t) = Inr u \<longrightarrow> sublist sign_in_surface u)
         \<longrightarrow> (\<exists>e. snd (login py s) = Inl e)"
    proof
      assume h: "\<forall>t \<le> 130. \<forall>u. current_url (view_at s t) = Inr u \<longrightarrow> sublist sign_in_surface u"
      have "\<forall>u. current_url (view_at s 10) = Inr u \<longrightarrow> sublist sign_in_surface u"
        using h [rule_format, of 10] by simp
      from final_check_on_sign_in [OF this, of py] show "\<exists>e. snd (login py s) = Inl e"
        unfolding l by simp
    qed
    have e: "(\<forall>t \<le> 120. (\<exists>u. current_url (view_at s t) = Inr u \<and> sublist sign_in_surface u)
                   \<and> (\<exists>cs. error_containers (view_at s t) = Inr cs))
         \<longrightarrow> fst (login py s) \<le> 120
             \<and> snd (login py s) = Inl (ValueError login_failed_message)"
    proof
      assume h: "\<forall>t \<le> 120. (\<exists>u. current_url (view_at s t) = Inr u \<and> sublist sign_in_surface u)
                   \<and> (\<exists>cs. error_containers (view_at s t) = Inr cs)"
      have "(10::nat) \<le> 120" by simp
      from h [rule_format, OF this] obtain u cs where
        "current_url (view_at s 10) = Inr u" "sublist sign_in_surface u"
        "error_containers (view_at s 10) = Inr cs" by auto
      from final_check_answers [OF this, of py]
      show "fst (login py s) \<le> 120 \<and> snd (login py s) = Inl (ValueError login_failed_message)"
        unfolding l by simp
    qed
    from a d e show ?thesis by blast
  next
    case None
    obtain c ending where w: "challenge_wait py (view_at s) countdown 0 = (c, ending)"
      by (cases "challenge_wait py (view_at s) countdown 0")
    note l = login_after_wait [OF assms None w]
    from challenge_wait_bound [OF w]
    have b: "c \<le> 120" and k: "\<exists>k. c = 10 * k"
      and r: "ending = Returned
          \<Longrightarrow> \<exists>u. current_url (view_at s c) = Inr u \<and> \<not> sublist sign_in_surface u"
      by (simp_all add: length_countdown)
    from k obtain k0 where k0: "c = 10 * k0" ..
    then have k1: "c + 10 = 10 * Suc k0" by simp
    have k2: "\<exists>k. c + 10 = 10 * k" using k1 ..
    have a: "fst (login py s) \<le> 130 \<and> (\<exists>k. fst (login py s) = 10 * k)"
      unfolding l using b k k2 by (cases ending) simp_all
    have d: "(\<forall>t \<le> 130. \<forall>u. current_url (view_at s t) = Inr u \<longrightarrow> sublist sign_in_surface u)
         \<longrightarrow> (\<exists>e. snd (login py s) = Inl e)"
    proof
      assume h: "\<forall>t \<le> 130. \<forall>u. current_url (view_at s t) = Inr u \<longrightarrow> sublist sign_in_surface u"
      show "\<exists>e. snd (login py s) = Inl e"
      proof (cases ending)
        case Returned
        from r [OF Returned] obtain u where
          "current_url (view_at s c) = Inr u" "\<not> sublist sign_in_surface u" by blast
        moreover have "c \<le> 130" using b by simp
        ultimately show ?thesis using h by blast
      next
        case Left_loop
        have "c \<le> 130" using b by simp
        then have "\<forall>u. current_url (view_at s c) = Inr u \<longrightarrow> sublist sign_in_surface u"
          using h by blast
        from final_check_on_sign_in [OF this, of py] show ?thesis
          unfolding l Left_loop by simp
      next
        case (Raised x)
        have "c + 10 \<le> 130" using b by simp
        then have
          "\<forall>u. current_url (view_at s (c + 10)) = Inr u \<longrightarrow> sublist sign_in_surface u"
          using h by blast
        from final_check_on_sign_in [OF this, of py] show ?thesis
          unfolding l Raised by simp
      qed
    qed
    have e: "(\<forall>t \<le> 120. (\<exists>u. current_url (view_at s t) = Inr u \<and> sublist sign_in_surface u)
                   \<and> (\<exists>cs. error_containers (view_at s t) = Inr cs))
         \<longrightarrow> fst (login py s) \<le> 120
             \<and> snd (login py s) = Inl (ValueError login_failed_message)"
    proof
      assume h: "\<forall>t \<le> 120. (\<exists>u. current_url (view_at s t) = Inr u \<and> sublist sign_in_surface u)
                   \<and> (\<exists>cs. error_containers (view_at s t) = Inr cs)"
      from h [rule_format, OF b] obtain u cs where
        hc: "current_url (view_at s c) = Inr u" "sublist sign_in_surface u"
        "error_containers (view_at s c) = Inr cs" by auto
      have left: "ending = Left_loop"
      proof (cases ending)
        case Returned
        with r hc show ?thesis by auto
      next
        case Left_loop
        then show ?thesis .
      next
        case (Raised x)
        with w challenge_wait_answers [of py "view_at s" countdown 0 c x]
        obtain t where "t \<le> 120"
          "current_url (view_at s t) = Inl x \<or> error_containers (view_at s t) = Inl x"
          by (auto simp: length_countdown)
        with h show ?thesis by fastforce
      qed
      from final_check_answers [OF hc, of py] b
      show "fst (login py s) \<le> 120 \<and> snd (login py s) = Inl (ValueError login_failed_message)"
        unfolding l left by simp
    qed
    from a d e show ?thesis by blast
  qed
  from looks breaks exhausts rest show ?thesis by blast
qed

lemma pending_captcha: "sublist ''captcha'' (lower ''Please complete the CAPTCHA'')"
  by code_simp

lemma pending_on_sign_in: "sublist sign_in_surface ''https://substack.com/sign-in''"
  by (simp add: sign_in_surface_def sublist_code(3))

lemma pending_view_pending: "still_pending latin1_str pending_view"
  using pending_captcha pending_on_sign_in
  by (simp add: still_pending_def pending_view_def latin1_str_def)

lemma home_left: "\<not> sublist sign_in_surface ''https://substack.com/home''"
  by (simp add: sign_in_surface_def sublist_code(3))

theorem login_budget_witness:
  "login latin1_str stuck_session = (120, Inl (ValueError login_failed_message))
   \<and> login latin1_str solved_session = (10, Inr ())
   \<and> login latin1_str late_session = (30, Inr ())"
proof -
  have stuck: "credential_steps stuck_session = None
      \<and> (\<forall>j. 1 \<le> j \<and> j \<le> 12 \<longrightarrow> still_pending latin1_str (view_at stuck_session (10 * j)))"
    using pending_view_pending by (simp add: stuck_session_def)
  have solved: "1 \<le> (1::nat) \<and> (1::nat) \<le> 12 \<and> credential_steps solved_session = None
      \<and> (\<forall>j. 1 \<le> j \<and> j < 1 \<longrightarrow> still_pending latin1_str (view_at solved_session (10 * j)))
      \<and> (\<exists>u. current_url (view_at solved_session (10 * 1)) = Inr u
            \<and> \<not> sublist sign_in_surface u)"
    using home_left by (simp add: solved_session_def home_view_def)
  have late: "1 \<le> (3::nat) \<and> (3::nat) \<le> 12 \<and> credential_steps late_session = None
      \<and> (\<forall>j. 1 \<le> j \<and> j < 3 \<longrightarrow> still_pending latin1_str (view_at late_session (10 * j)))
      \<and> (\<exists>u. current_url (view_at late_session (10 * 3)) = Inr u
            \<and> \<not> sublist sign_in_surface u)"
    using home_left pending_view_pending by (simp add: late_session_def home_view_def)
  have o: "open_sign_in stuck_session = None" "open_sign_in solved_session = None"
    "open_sign_in late_session = None"
    by (simp_all add: stuck_session_def solved_session_def late_session_def)
  from login_budget [OF o(1), of latin1_str, THEN conjunct2, THEN conjunct2, THEN conjunct2,
      THEN conjunct2, THEN conjunct1, rule_format, OF stuck]
    login_budget [OF o(2), of latin1_str, THEN conjunct2, THEN conjunct2, THEN conjunct1,
      rule_format, OF solved]
    login_budget [OF o(3), of latin1_str, THEN conjunct2, THEN conjunct2, THEN conjunct1,
      rule_format, OF late]
  show ?thesis by simp
qed

text \<open>
  C6 as stated fails on the success condition and on the budget. The first session is
  sent to an address that is not the sign-in address but contains it: no look counts as
  success, and \<open>login\<close> raises after 120 seconds. In the second the look after 120
  seconds raises: the handler sleeps once more, and \<open>login\<close> ends after 130 seconds.
\<close>

theorem login_budget_counterexample:
  "current_url redirect_view \<noteq> Inr sign_in_url
   \<and> login latin1_str redirect_session = (120, Inl (ValueError login_failed_message))
   \<and> login latin1_str broken_look_session = (130, Inl (ValueError login_failed_message))"
proof -
  have u: "current_url redirect_view \<noteq> Inr sign_in_url"
    by (simp add: redirect_view_def sign_in_url_def)
  have r: "sublist sign_in_surface ''https://substack.com/sign-in?redirect=%2Finbox''"
    by (simp add: sign_in_surface_def sublist_code(3))
  have p: "still_pending latin1_str redirect_view"
    using r by (simp add: still_pending_def redirect_view_def)
  have l1: "login latin1_str redirect_session = (120, Inl (ValueError login_failed_message))"
    using p by (intro login_exhausts) (simp_all add: redirect_session_def)
  have "challenge_wait latin1_str (view_at broken_look_session) countdown 0
      = challenge_wait latin1_str (view_at broken_look_session) (drop 11 countdown)
          (0 + 10 * 11)"
    using pending_view_pending
    by (intro challenge_wait_skip) (simp_all add: length_countdown broken_look_session_def)
  then have w2: "challenge_wait latin1_str (view_at broken_look_session) countdown 0
      = (120, Raised WebDriverException)"
    by (simp add: countdown_def broken_look_session_def)
  have f2: "final_check latin1_str (view_at broken_look_session (120 + 10))
      = Inl (ValueError login_failed_message)"
    using pending_view_pending by (simp add: broken_look_session_def final_check_pending)
  have l2: "login latin1_str broken_look_session
      = (130, Inl (ValueError login_failed_message))"
    using login_after_wait [OF _ _ w2] f2 by (simp add: broken_look_session_def)
  from u l1 l2 show ?thesis by simp
qed

section \<open>The per-post loop and the batch\<close>

lemma process_post_exists:
  "md_filepath_of sc url \<in> dom (files st) \<Longrightarrow> process_post sc url st = (st, Inr AlreadyExists)"
  by (simp add: process_post_def md_filepath_of_def Let_def)

lemma process_post_fetch_raises:
  "md_filepath_of sc url \<notin> dom (files st) \<Longrightarrow> get_url_soup sc url = Inl e \<Longrightarrow>
   process_post sc url st = (st\<lparr>fetched := fetched st @ [url]\<rparr>, Inl e)"
  by (simp add: process_post_def md_filepath_of_def Let_def)

lemma process_post_no_soup:
  "md_filepath_of sc url \<notin> dom (files st) \<Longrightarrow> get_url_soup sc url = Inr None \<Longrightarrow>
   process_post sc url st = (st\<lparr>fetched := fetched st @ [url]\<rparr>, Inr NoSoup)"
  by (simp add: process_post_def md_filepath_of_def Let_def)

lemma process_post_extract_raises:
  "md_filepath_of sc url \<notin> dom (files st) \<Longrightarrow> get_url_soup sc url = Inr (Some doc) \<Longrightarrow>
   extract_post_data (str_ops sc) (html2text_handle sc) doc = Inl e \<Longrightarrow>
   process_post sc url st = (st\<lparr>fetched := fetched st @ [url]\<rparr>, Inl e)"
  by (simp add: process_post_def md_filepath_of_def Let_def)

lemma process_post_md_fails:
  "md_filepath_of sc url \<notin> dom (files st) \<Longrightarrow> get_url_soup sc url = Inr (Some doc) \<Longrightarrow>
   extract_post_data (str_ops sc) (html2text_handle sc) doc = Inr d \<Longrightarrow>
   write_fails sc (md_filepath_of sc url) \<Longrightarrow>
   process_post sc url st = (st\<lparr>fetched := fetched st @ [url]\<rparr>, Inl OSError)"
  by (cases d) (simp add: process_post_def md_filepath_of_def Let_def save_to_file_def)

lemma process_post_html_fails:
  "md_filepath_of sc url \<notin> dom (files st) \<Longrightarrow> get_url_soup sc url = Inr (Some doc) \<Longrightarrow>
   extract_post_data (str_ops sc) (html2text_handle sc) doc = Inr (t, s, l, d, md) \<Longrightarrow>
   \<not> write_fails sc (md_filepath_of sc url) \<Longrightarrow>
   write_fails sc (html_filepath_of sc url) \<Longrightarrow>
   process_post sc url st =
     (st\<lparr>fetched := fetched st @ [url], files := (files st)(md_filepath_of sc url \<mapsto> md)\<rparr>,
      Inl OSError)"
  by (simp add: process_post_def md_filepath_of_def html_filepath_of_def Let_def
      save_to_file_def save_to_html_file_def)

lemma process_post_recorded:
  "md_filepath_of sc url \<notin> dom (files st) \<Longrightarrow> get_url_soup sc url = Inr (Some doc) \<Longrightarrow>
   extract_post_data (str_ops sc) (html2text_handle sc) doc = Inr (t, s, l, d, md) \<Longrightarrow>
   \<not> write_fails sc (md_filepath_of sc url) \<Longrightarrow>
   \<not> write_fails sc (html_filepath_of sc url) \<Longrightarrow>
   process_post sc url st =
     (st\<lparr>fetched := fetched st @ [url],
         files := (files st)(md_filepath_of sc url \<mapsto> md,
                    html_filepath_of sc url \<mapsto>
                      html_page ''../assets/css/essay-styles.css'' (markdown_markdown sc md))\<rparr>,
      Inr (Recorded \<lparr> title = t, subtitle = s, like_count = l, date = d,
             file_link = ''markdown/'' @ get_filename_from_url url ''.md'',
             html_link = ''html/'' @ get_filename_from_url url ''.html'' \<rparr>))"
  by (simp add: process_post_def md_filepath_of_def html_filepath_of_def Let_def
      save_to_file_def save_to_html_file_def)

lemma never_written_fetch_raises: "get_url_soup sc url = Inl e \<Longrightarrow> never_written sc url"
  by (simp add: never_written_def)

lemma never_written_no_soup: "get_url_soup sc url = Inr None \<Longrightarrow> never_written sc url"
  by (simp add: never_written_def)

lemma process_post_cases:
  obtains
    (exists) "md_filepath_of sc url \<in> dom (files st)"
      "process_post sc url st = (st, Inr AlreadyExists)"
  | (raises) e where "md_filepath_of sc url \<notin> dom (files st)" "never_written sc url"
      "process_post sc url st = (st\<lparr>fetched := fetched st @ [url]\<rparr>, Inl e)"
  | (no_soup) "md_filepath_of sc url \<notin> dom (files st)" "get_url_soup sc url = Inr None"
      "process_post sc url st = (st\<lparr>fetched := fetched st @ [url]\<rparr>, Inr NoSoup)"
  | (half) md where "md_filepath_of sc url \<notin> dom (files st)"
      "process_post sc url st =
        (st\<lparr>fetched := fetched st @ [url], files := (files st)(md_filepath_of sc url \<mapsto> md)\<rparr>,
         Inl OSError)"
  | (recorded) md h d where "md_filepath_of sc url \<notin> dom (files st)"
      "process_post sc url st =
        (st\<lparr>fetched := fetched st @ [url],
            files := (files st)(md_filepath_of sc url \<mapsto> md, html_filepath_of sc url \<mapsto> h)\<rparr>,
         Inr (Recorded d))"
proof (cases "md_filepath_of sc url \<in> dom (files st)")
  case True
  then show ?thesis using exists process_post_exists by blast
next
  case False
  show ?thesis
  proof (cases "get_url_soup sc url")
    case (Inl e)
    then show ?thesis
      using raises False process_post_fetch_raises never_written_fetch_raises by blast
  next
    case (Inr so)
    show ?thesis
    proof (cases so)
      case None
      then show ?thesis using no_soup False Inr process_post_no_soup by blast
    next
      case (Some doc)
      show ?thesis
      proof (cases "extract_post_data (str_ops sc) (html2text_handle sc) doc")
        case (Inl e)
        have "never_written sc url" using Inr Some Inl by (simp add: never_written_def)
        then show ?thesis
          using raises False Inr Some Inl process_post_extract_raises by blast
      next
        case r: (Inr d)
        obtain t s l da md where d: "d = (t, s, l, da, md)" by (cases d)
        show ?thesis
        proof (cases "write_fails sc (md_filepath_of sc url)")
          case True
          have "never_written sc url" using Inr Some r True by (simp add: never_written_def)
          then show ?thesis
            using raises False Inr Some r True process_post_md_fails by blast
        next
          case nf: False
          show ?thesis
          proof (cases "write_fails sc (html_filepath_of sc url)")
            case True
            show ?thesis
              using half [OF False] process_post_html_fails [OF False] Inr Some r d nf True
              by blast
          next
            case hf: False
            show ?thesis
              using recorded [OF False] process_post_recorded [OF False] Inr Some r d nf hf
              by blast
          qed
        qed
      qed
    qed
  qed
qed

lemma process_post_grows:
  assumes "process_post sc url st = (st', r)"
  shows "dom (files st) \<subseteq> dom (files st') \<and> index_json st' = index_json st
    \<and> index_html st' = index_html st
    \<and> (md_filepath_of sc url \<in> dom (files st') \<or> never_written sc url)"
  using assms by (cases sc url st rule: process_post_cases) (auto simp: never_written_no_soup)

lemma process_post_quiet:
  assumes "md_filepath_of sc url \<in> dom (files st) \<or> never_written sc url"
  shows "\<exists>st' r. process_post sc url st = (st', r) \<and> files st' = files st
    \<and> index_json st' = index_json st \<and> index_html st' = index_html st
    \<and> (\<forall>d. r \<noteq> Inr (Recorded d))
    \<and> (r = Inr NoSoup \<longrightarrow>
          md_filepath_of sc url \<notin> dom (files st) \<and> get_url_soup sc url = Inr None)"
proof (cases "md_filepath_of sc url \<in> dom (files st)")
  case True
  then show ?thesis by (simp add: process_post_exists)
next
  case False
  with assms have nw: "never_written sc url" by simp
  show ?thesis
  proof (cases "get_url_soup sc url")
    case (Inl e)
    then show ?thesis using False by (simp add: process_post_fetch_raises)
  next
    case (Inr so)
    show ?thesis
    proof (cases so)
      case None
      then show ?thesis using False Inr by (simp add: process_post_no_soup)
    next
      case (Some doc)
      show ?thesis
      proof (cases "extract_post_data (str_ops sc) (html2text_handle sc) doc")
        case (Inl e)
        then show ?thesis using False Inr Some by (simp add: process_post_extract_raises)
      next
        case r: (Inr d)
        with nw Inr Some have "write_fails sc (md_filepath_of sc url)"
          by (simp add: never_written_def)
        then show ?thesis
          using False Inr Some r process_post_md_fails [of sc url st doc d] by simp
      qed
    qed
  qed
qed

lemma scrape_loop_step:
  assumes "process_post sc url st = (st', r)"
  shows "scrape_loop sc n (url # urls) st b c =
     (if r = Inr NoSoup then scrape_loop sc n urls st' b c
      else if n \<noteq> 0 \<and> int (c + 1) = n
        then (st', (case r of Inr (Recorded d) \<Rightarrow> b @ [d] | _ \<Rightarrow> b), c + 1)
      else scrape_loop sc n urls st' (case r of Inr (Recorded d) \<Rightarrow> b @ [d] | _ \<Rightarrow> b) (c + 1))"
  using assms by (simp add: Let_def)

lemma scrape_loop_grows:
  "scrape_loop sc n urls st b c = (st', b', c') \<Longrightarrow>
     dom (files st) \<subseteq> dom (files st') \<and> index_json st' = index_json st
     \<and> index_html st' = index_html st"
proof (induction urls arbitrary: st b c)
  case Nil
  then show ?case by simp
next
  case (Cons url urls)
  obtain s1 r where p: "process_post sc url st = (s1, r)" by (cases "process_post sc url st")
  note g = process_post_grows [OF p]
  from Cons.prems have
    "(s1, (case r of Inr (Recorded d) \<Rightarrow> b @ [d] | _ \<Rightarrow> b), c + 1) = (st', b', c')
     \<or> (\<exists>b1 c1. scrape_loop sc n urls s1 b1 c1 = (st', b', c'))"
    unfolding scrape_loop_step [OF p] by (auto split: if_splits)
  then show ?case
  proof
    assume "(s1, (case r of Inr (Recorded d) \<Rightarrow> b @ [d] | _ \<Rightarrow> b), c + 1) = (st', b', c')"
    with g show ?thesis by auto
  next
    assume "\<exists>b1 c1. scrape_loop sc n urls s1 b1 c1 = (st', b', c')"
    then obtain b1 c1 where "scrape_loop sc n urls s1 b1 c1 = (st', b', c')" by blast
    from Cons.IH [OF this] have i: "dom (files s1) \<subseteq> dom (files st')"
      "index_json st' = index_json s1" "index_html st' = index_html s1" by simp_all
    from g i(1) have "dom (files st) \<subseteq> dom (files st')" by blast
    then show ?thesis by (simp add: i g)
  qed
qed

lemma scrape_loop_second_run:
  assumes "scrape_loop sc n urls s b c = (s', b', c')"
    and "dom (files s') \<subseteq> dom (files T)"
    and "n \<le> 0 \<or> (c \<le> c2 \<and> int c2 < n)"
  shows "\<exists>T' c2'. scrape_loop sc n urls T b2 c2 = (T', b2, c2') \<and> files T' = files T
    \<and> index_json T' = index_json T \<and> index_html T' = index_html T"
  using assms
proof (induction urls arbitrary: s b c T c2)
  case Nil
  then show ?case by simp
next
  case (Cons url urls)
  obtain s1 r1 where p1: "process_post sc url s = (s1, r1)"
    by (cases "process_post sc url s")
  note g1 = process_post_grows [OF p1]
  from Cons.prems(1) consider
    (brk) "r1 \<noteq> Inr NoSoup" "n \<noteq> 0" "int (c + 1) = n" "s' = s1"
    | (skip) "r1 = Inr NoSoup" "scrape_loop sc n urls s1 b c = (s', b', c')"
    | (cont) b1 where "r1 \<noteq> Inr NoSoup" "\<not> (n \<noteq> 0 \<and> int (c + 1) = n)"
        "scrape_loop sc n urls s1 b1 (c + 1) = (s', b', c')"
    unfolding scrape_loop_step [OF p1] by (auto split: if_splits)
  then have sub: "dom (files s1) \<subseteq> dom (files s')"
    by cases (auto dest: scrape_loop_grows)
  have settled: "md_filepath_of sc url \<in> dom (files T) \<or> never_written sc url"
    using g1 sub Cons.prems(2) by blast
  from process_post_quiet [OF settled] obtain T1 r2 where
    p2: "process_post sc url T = (T1, r2)"
    and same: "files T1 = files T" "index_json T1 = index_json T" "index_html T1 = index_html T"
    and notrec: "\<forall>d. r2 \<noteq> Inr (Recorded d)"
    and ns: "r2 = Inr NoSoup \<longrightarrow>
          md_filepath_of sc url \<notin> dom (files T) \<and> get_url_soup sc url = Inr None"
    by blast
  have b2same: "(case r2 of Inr (Recorded d) \<Rightarrow> b2 @ [d] | _ \<Rightarrow> b2) = b2"
    using notrec by (auto split: sum.splits outcome.splits)
  have r2_r1: "r1 = Inr NoSoup" if "r2 = Inr NoSoup"
  proof -
    from that ns have m: "md_filepath_of sc url \<notin> dom (files T)"
      and f: "get_url_soup sc url = Inr None" by simp_all
    from m g1 sub Cons.prems(2) have "md_filepath_of sc url \<notin> dom (files s)" by blast
    from process_post_no_soup [OF this f] p1 show ?thesis by simp
  qed
  have subT1: "dom (files s') \<subseteq> dom (files T1)" using Cons.prems(2) same by simp
  show ?case
  proof (cases "r2 = Inr NoSoup")
    case True
    then have "r1 = Inr NoSoup" by (rule r2_r1)
    with Cons.prems(1) have run: "scrape_loop sc n urls s1 b c = (s', b', c')"
      unfolding scrape_loop_step [OF p1] by simp
    from Cons.IH [OF run subT1 Cons.prems(3)] obtain T' c2' where
      "scrape_loop sc n urls T1 b2 c2 = (T', b2, c2')" "files T' = files T1"
      "index_json T' = index_json T1" "index_html T' = index_html T1" by blast
    then show ?thesis
      unfolding scrape_loop_step [OF p2] using True same by simp
  next
    case False
    show ?thesis
    proof (cases "n \<noteq> 0 \<and> int (c2 + 1) = n")
      case True
      then show ?thesis
        unfolding scrape_loop_step [OF p2] using False same b2same by simp
    next
      case nb: False
      have nobrk: "\<not> (r1 \<noteq> Inr NoSoup \<and> n \<noteq> 0 \<and> int (c + 1) = n)"
        using nb Cons.prems(3) by auto
      from Cons.prems(1) nobrk obtain b1 c1 where
        run: "scrape_loop sc n urls s1 b1 c1 = (s', b', c')" and c1: "c1 \<le> c + 1"
        unfolding scrape_loop_step [OF p1] by (auto split: if_splits)
      have cnt: "n \<le> 0 \<or> (c1 \<le> c2 + 1 \<and> int (c2 + 1) < n)"
        using nb Cons.prems(3) c1 by auto
      from Cons.IH [OF run subT1 cnt] obtain T' c2' where
        "scrape_loop sc n urls T1 b2 (c2 + 1) = (T', b2, c2')" "files T' = files T1"
        "index_json T' = index_json T1" "index_html T' = index_html T1" by blast
      then show ?thesis
        unfolding scrape_loop_step [OF p2] using False nb same b2same by simp
    qed
  qed
qed

lemma process_post_fetched:
  assumes "process_post sc url st = (st', r)"
  shows "fetched st' = fetched st
    \<or> (fetched st' = fetched st @ [url] \<and> md_filepath_of sc url \<notin> dom (files st))"
  using assms by (cases sc url st rule: process_post_cases) auto

lemma scrape_loop_fetched:
  "scrape_loop sc n urls st b c = (st', b', c') \<Longrightarrow> u \<in> set (fetched st') \<Longrightarrow>
     u \<in> set (fetched st) \<or> md_filepath_of sc u \<notin> dom (files st)"
proof (induction urls arbitrary: st b c)
  case Nil
  then show ?case by simp
next
  case (Cons url urls)
  obtain s1 r where p: "process_post sc url st = (s1, r)" by (cases "process_post sc url st")
  note g = process_post_grows [OF p]
  note f = process_post_fetched [OF p]
  from Cons.prems(1) have
    "s1 = st' \<or> (\<exists>b1 c1. scrape_loop sc n urls s1 b1 c1 = (st', b', c'))"
    unfolding scrape_loop_step [OF p] by (auto split: if_splits)
  then have "u \<in> set (fetched s1) \<or> md_filepath_of sc u \<notin> dom (files s1)"
    using Cons.IH Cons.prems(2) by blast
  then show ?case using g f by auto
qed

lemma example_run:
  "\<exists>st1. scrape_posts (example_scraper [''https://x.substack.com/p/one'',
          ''https://x.substack.com/p/two'', ''https://x.substack.com/p/three'']) 0 empty_site
        = Inr st1
     \<and> index_json st1 = Some [example_record ''one'', example_record ''three'']
     \<and> fetched st1 = [''https://x.substack.com/p/one'', ''https://x.substack.com/p/two'',
          ''https://x.substack.com/p/three'']"
  by (simp add: scrape_posts_def example_scraper_def empty_site_def process_post_def Let_def
      SubstackScraper_get_url_soup_def example_requests_get_def example_parse_html_def example_soup_def
      extract_post_data_def latin1_str_def strip_def py_isspace_def save_to_file_def save_to_html_file_def
      md_save_dir_def html_save_dir_def base_output_dir_def get_filename_from_url_def
      save_essays_data_to_json_def generate_html_file_def ebind_def json_path_def
      html_output_path_def example_record_def)







text \<open>
  C2. If a run of \<open>scrape_posts\<close> returns, a second run from the state it left, with the
  same scraper (the same discovered URLs and the same answers of the site), returns too
  and leaves every file, the index and the index page as they were: it writes no file and
  adds no record. A URL whose Markdown file exists when a run starts is not fetched in
  that run. \<open>save_to_file\<close> on a path that exists leaves the disk as it is.
\<close>

theorem scrape_posts_idempotent:
  assumes "scrape_posts sc n st = Inr st1"
  shows "(\<exists>st2. scrape_posts sc n st1 = Inr st2 \<and> files st2 = files st1
            \<and> index_json st2 = index_json st1 \<and> index_html st2 = index_html st1)
    \<and> (\<forall>url. md_filepath_of sc url \<in> dom (files st) \<and> url \<notin> set (fetched st)
          \<longrightarrow> url \<notin> set (fetched st1))
    \<and> (\<forall>path content. path \<in> dom (files st)
          \<longrightarrow> save_to_file (write_fails sc) path content (files st) = Inr (files st))"
proof -
  obtain sL essays c where loop: "scrape_loop sc n (post_urls sc) st [] 0 = (sL, essays, c)"
    by (cases "scrape_loop sc n (post_urls sc) st [] 0")
  define merged where "merged =
     (case index_json sL of
        Some existing \<Rightarrow> existing @ filter (\<lambda>d. d \<notin> set existing) essays
      | None \<Rightarrow> essays)"
  from assms loop have wj: "\<not> write_fails sc (json_path sc)"
    by (auto simp: scrape_posts_def save_essays_data_to_json_def ebind_def Let_def
        split: if_splits)
  then have sj: "save_essays_data_to_json sc essays sL = Inr (sL\<lparr>index_json := Some merged\<rparr>)"
    by (simp add: save_essays_data_to_json_def merged_def)
  from assms loop sj obtain template where
    tpl: "html_template sc = Some template"
    and wi: "\<not> write_fails sc (html_output_path sc)"
    and st1: "st1 = sL\<lparr>index_json := Some merged,
                index_html := Some (render_index sc template (writer_name sc) merged)\<rparr>"
    by (auto simp: scrape_posts_def ebind_Inr generate_html_file_def
        split: option.splits if_splits)
  have "dom (files sL) \<subseteq> dom (files st1)" by (simp add: st1)
  moreover have "n \<le> 0 \<or> ((0::nat) \<le> 0 \<and> int 0 < n)" by auto
  ultimately obtain T' c2' where
    loop2: "scrape_loop sc n (post_urls sc) st1 [] 0 = (T', [], c2')"
    and T': "files T' = files st1" "index_json T' = index_json st1"
      "index_html T' = index_html st1"
    using scrape_loop_second_run [OF loop, of st1 0 "[]"] by blast
  have ij: "index_json T' = Some merged" using T' by (simp add: st1)
  have "scrape_posts sc n st1 =
      Inr (T'\<lparr>index_json := Some merged,
               index_html := Some (render_index sc template (writer_name sc) merged)\<rparr>)"
    using loop2 ij wj wi tpl
    by (simp add: scrape_posts_def save_essays_data_to_json_def ebind_Inr
        generate_html_file_def)
  then have first: "\<exists>st2. scrape_posts sc n st1 = Inr st2 \<and> files st2 = files st1
            \<and> index_json st2 = index_json st1 \<and> index_html st2 = index_html st1"
    using T' by (simp add: st1)
  have second: "\<forall>url. md_filepath_of sc url \<in> dom (files st) \<and> url \<notin> set (fetched st)
          \<longrightarrow> url \<notin> set (fetched st1)"
    using scrape_loop_fetched [OF loop] by (auto simp: st1)
  have third: "\<forall>path content. path \<in> dom (files st)
          \<longrightarrow> save_to_file (write_fails sc) path content (files st) = Inr (files st)"
    by (simp add: save_to_file_def)
  from first second third show ?thesis by blast
qed

theorem scrape_posts_idempotent_witness:
  "\<exists>st1 st2.
     scrape_posts (example_scraper [''https://x.substack.com/p/one'',
          ''https://x.substack.com/p/two'', ''https://x.substack.com/p/three'']) 0 empty_site
       = Inr st1
     \<and> scrape_posts (example_scraper [''https://x.substack.com/p/one'',
          ''https://x.substack.com/p/two'', ''https://x.substack.com/p/three'']) 0 st1
       = Inr st2
     \<and> files st2 = files st1 \<and> index_json st2 = index_json st1
     \<and> index_json st1 = Some [example_record ''one'', example_record ''three'']"
proof -
  from example_run obtain st1 where
    run: "scrape_posts (example_scraper [''https://x.substack.com/p/one'',
          ''https://x.substack.com/p/two'', ''https://x.substack.com/p/three'']) 0 empty_site
        = Inr st1"
    and ij: "index_json st1 = Some [example_record ''one'', example_record ''three'']"
    by blast
  from scrape_posts_idempotent [OF run] obtain st2 where
    "scrape_posts (example_scraper [''https://x.substack.com/p/one'',
          ''https://x.substack.com/p/two'', ''https://x.substack.com/p/three'']) 0 st1
       = Inr st2"
    "files st2 = files st1" "index_json st2 = index_json st1"
    by blast
  with run ij show ?thesis by blast
qed






end
